theory Spec2Isabelle
  imports Complex_Main "HOL-Library.AList"
begin

section \<open>Strings as the services use them\<close>

text \<open>
  JavaScript strings are modelled as \<open>string\<close> (a list of 8-bit characters, non-ASCII
  text as its UTF-8 bytes).  \<open>Date.now()\<close> and every other clock reading is an explicit
  argument.  A JavaScript \<open>Map\<close> is an association list: \<open>Map.set\<close> keeps the position
  of an existing key and appends a new one (\<open>AList.update\<close>), \<open>Map.delete\<close> removes the
  entry (\<open>AList.delete\<close>), \<open>Map.get\<close> is \<open>map_of\<close>.  Console output is left out of
  the handoff, survey and buffer services; the scheduler's trace records it.
\<close>

definition isDigit :: "char \<Rightarrow> bool" where
  "isDigit c = (c \<in> set ''0123456789'')"

text \<open>\<^verbatim>\<open>s.replace(/\D/g, '')\<close>: every character that is not one of 0..9 is dropped.\<close>

definition stripNonDigits :: "string \<Rightarrow> string" where
  "stripNonDigits s = filter isDigit s"

text \<open>White space as \<^verbatim>\<open>String.prototype.trim\<close> sees it (the ASCII part).\<close>

definition isSpace :: "char \<Rightarrow> bool" where
  "isSpace c = (c \<in> set [CHR '' '', CHR 0x09, CHR 0x0A, CHR 0x0B, CHR 0x0C, CHR 0x0D])"

definition trim :: "string \<Rightarrow> string" where
  "trim s = rev (dropWhile isSpace (rev (dropWhile isSpace s)))"

fun startsWith :: "string \<Rightarrow> string \<Rightarrow> bool" where
  "startsWith s [] = True"
| "startsWith [] (p # ps) = False"
| "startsWith (c # cs) (p # ps) = (c = p \<and> startsWith cs ps)"

text \<open>\<^verbatim>\<open>s.includes(p)\<close>.\<close>

fun includesStr :: "string \<Rightarrow> string \<Rightarrow> bool" where
  "includesStr [] p = (p = [])"
| "includesStr (c # cs) p = (startsWith (c # cs) p \<or> includesStr cs p)"

definition lowerChar :: "char \<Rightarrow> char" where
  "lowerChar c =
     (case map_of (zip ''ABCDEFGHIJKLMNOPQRSTUVWXYZ'' ''abcdefghijklmnopqrstuvwxyz'') c of
        None \<Rightarrow> c | Some l \<Rightarrow> l)"

text \<open>\<^verbatim>\<open>s.toLowerCase()\<close> on the ASCII letters; other bytes are kept.\<close>

definition toLowerCase :: "string \<Rightarrow> string" where
  "toLowerCase s = map lowerChar s"

text \<open>
  \<^verbatim>\<open>s.replace(/pat/g, rep)\<close> for a literal pattern: every occurrence, left to right,
  without overlap.  (Dollar patterns in the replacement are not interpreted here.)
\<close>

fun replaceAll :: "nat \<Rightarrow> string \<Rightarrow> string \<Rightarrow> string \<Rightarrow> string" where
  "replaceAll skip pat rep [] = []"
| "replaceAll skip pat rep (c # cs) =
     (case skip of
        Suc k \<Rightarrow> replaceAll k pat rep cs
      | 0 \<Rightarrow> if pat \<noteq> [] \<and> startsWith (c # cs) pat
             then rep @ replaceAll (length pat - 1) pat rep cs
             else c # replaceAll 0 pat rep cs)"

text \<open>A string property that is defined and not empty.\<close>

definition truthy :: "string option \<Rightarrow> bool" where
  "truthy v = (case v of None \<Rightarrow> False | Some s \<Rightarrow> s \<noteq> [])"

text \<open>
  A JavaScript number that may be NaN is an \<open>int option\<close> (\<open>None\<close> is NaN); the
  numbers met here are integers far below \<open>2^53\<close>, where the double arithmetic is
  exact.  \<^verbatim>\<open>parseInt(s)\<close> without a radix: leading white space, an optional sign, an
  optional \<^verbatim>\<open>0x\<close> prefix, then the longest run of digits; NaN when that run is empty.
\<close>

definition digitValue :: "char \<Rightarrow> nat option" where
  "digitValue c =
     map_of (zip ''0123456789abcdefABCDEF''
               [0, 1, 2, 3, 4, 5, 6, 7, 8, 9, 10, 11, 12, 13, 14, 15, 10, 11, 12, 13, 14, 15]) c"

definition radixDigit :: "nat \<Rightarrow> char \<Rightarrow> bool" where
  "radixDigit radix c = (case digitValue c of None \<Rightarrow> False | Some v \<Rightarrow> v < radix)"

definition digitsValue :: "nat \<Rightarrow> string \<Rightarrow> nat" where
  "digitsValue radix ds =
     foldl (\<lambda>acc c. acc * radix + (case digitValue c of None \<Rightarrow> 0 | Some v \<Rightarrow> v)) 0 ds"

definition parseInt :: "string \<Rightarrow> int option" where
  "parseInt s =
     (let s1 = dropWhile isSpace s;
          neg = startsWith s1 ''-'';
          s2 = (if s1 \<noteq> [] \<and> (hd s1 = CHR ''-'' \<or> hd s1 = CHR ''+'') then tl s1 else s1);
          hex = (startsWith s2 ''0x'' \<or> startsWith s2 ''0X'');
          radix = (if hex then 16 else 10);
          s3 = (if hex then drop 2 s2 else s2);
          ds = takeWhile (radixDigit radix) s3
      in if ds = [] then None
         else Some ((if neg then - 1 else 1) * int (digitsValue radix ds)))"

section \<open>Handoff pause manager (humanHandoffService.js)\<close>

record pause_info =
  pausedAt :: int
  expiresAt :: int
  reason :: string

record handoff_config =
  adminWhatsapp :: string
  pauseMinutes :: int
  customerMessage :: string
  adminMessage :: string

record handoff_service =
  pausedChats :: "(string \<times> pause_info) list"
  handoffConfig :: handoff_config
  handoffKeywords :: "string list"

text \<open>A call of \<^verbatim>\<open>provider.sendMessage(to, body, {})\<close>.\<close>

record outgoing =
  sendTo :: string
  sendBody :: string



text \<open>\<^verbatim>\<open>detectHandoffIntent\<close>: some keyword occurs in the lower-cased message.\<close>

definition detectHandoffIntent :: "handoff_service \<Rightarrow> string \<Rightarrow> bool" where
  "detectHandoffIntent hs message =
     (let messageLower = toLowerCase message
      in list_ex (\<lambda>keyword. includesStr messageLower keyword) (handoffKeywords hs))"

text \<open>
  \<^verbatim>\<open>isPaused\<close>: the result and the service afterwards.  The expired record is deleted
  here and nowhere else.
\<close>

definition isPaused :: "int \<Rightarrow> string \<Rightarrow> handoff_service \<Rightarrow> bool \<times> handoff_service" where
  "isPaused now phoneNumber hs =
     (let cleanNumber = stripNonDigits phoneNumber
      in case map_of (pausedChats hs) cleanNumber of
           None \<Rightarrow> (False, hs)
         | Some pauseInfo \<Rightarrow>
             if now > expiresAt pauseInfo
             then (False, hs\<lparr>pausedChats := AList.delete cleanNumber (pausedChats hs)\<rparr>)
             else (True, hs))"

definition pauseChat :: "int \<Rightarrow> string \<Rightarrow> string \<Rightarrow> handoff_service \<Rightarrow> handoff_service" where
  "pauseChat now phoneNumber rsn hs =
     (let cleanNumber = stripNonDigits phoneNumber;
          expires = now + pauseMinutes (handoffConfig hs) * 60 * 1000
      in hs\<lparr>pausedChats :=
              AList.update cleanNumber
                \<lparr>pausedAt = now, expiresAt = expires, reason = rsn\<rparr> (pausedChats hs)\<rparr>)"


text \<open>
  \<^verbatim>\<open>initiateHandoff\<close>: the pause is committed first; then the two notifications are
  attempted.  A failing \<^verbatim>\<open>sendMessage\<close> is caught and only logged, so the result
  lists the attempted calls and does not depend on their outcome.
\<close>

definition initiateHandoff ::
  "int \<Rightarrow> string \<Rightarrow> string \<Rightarrow> handoff_service \<Rightarrow> outgoing list \<times> handoff_service" where
  "initiateHandoff now phoneNumber message hs =
     (let cleanNumber = stripNonDigits phoneNumber;
          hs' = pauseChat now cleanNumber message hs;
          cfg = handoffConfig hs;
          customerNumber = (if CHR ''@'' \<in> set cleanNumber then cleanNumber
                            else cleanNumber @ ''@s.whatsapp.net'');
          toCustomer = \<lparr>sendTo = customerNumber, sendBody = customerMessage cfg\<rparr>;
          toAdmin =
            (if adminWhatsapp cfg \<noteq> []
             then [\<lparr>sendTo = adminWhatsapp cfg @ ''@s.whatsapp.net'',
                    sendBody = replaceAll 0 ''{message}'' message
                                 (replaceAll 0 ''{phone}'' cleanNumber (adminMessage cfg))\<rparr>]
             else [])
      in (toCustomer # toAdmin, hs'))"

record paused_entry =
  pe_phone :: string
  pe_pausedAt :: int
  pe_expiresAt :: int
  pe_remainingMinutes :: int
  pe_reason :: string

text \<open>
  \<^verbatim>\<open>getPausedChats\<close>: a read of the map; the two dates are kept as time values
  (their \<^verbatim>\<open>toLocaleString\<close> rendering is not modelled), \<^verbatim>\<open>Math.round\<close> rounds
  half up.
\<close>

definition getPausedChats :: "int \<Rightarrow> handoff_service \<Rightarrow> paused_entry list" where
  "getPausedChats now hs =
     map (\<lambda>(phone, info).
            \<lparr>pe_phone = phone, pe_pausedAt = pausedAt info, pe_expiresAt = expiresAt info,
             pe_remainingMinutes = (expiresAt info - now + 30000) div 60000,
             pe_reason = reason info\<rparr>)
         (filter (\<lambda>(phone, info). now \<le> expiresAt info) (pausedChats hs))"

definition defaultHandoffKeywords :: "string list" where
  "defaultHandoffKeywords =
     [''hablar con alguien'', ''persona real'', ''humano'', ''agente'', ''asesor'',
      ''vendedor'', ''atenci'' @ [CHR 0xC3, CHR 0xB3] @ ''n personalizada'',
      ''hablar con una persona'', ''comunicarme con alguien'', ''quiero llamar'',
      ''pueden llamarme'', ''necesito ayuda humana'', ''operador'', ''representante'']"

text \<open>The service as its constructor leaves it (message templates shortened to ASCII).\<close>

definition initialHandoff :: handoff_service where
  "initialHandoff =
     \<lparr>pausedChats = [],
      handoffConfig = \<lparr>adminWhatsapp = [], pauseMinutes = 30,
                       customerMessage = ''En breve un asesor se comunicara contigo'',
                       adminMessage = ''SOLICITUD DE ATENCION Cliente: {phone} Mensaje: {message}''\<rparr>,
      handoffKeywords = defaultHandoffKeywords\<rparr>"

section \<open>Survey flow engine (surveyService.js)\<close>

record survey_config =
  keyword :: string
  welcomeMessage :: string
  thankYouMessage :: string
  isActive :: bool

text \<open>
  The object \<^verbatim>\<open>getSurveyConfig\<close> returns: each property is present or undefined.
\<close>

record sheet_survey_config =
  sheetKeyword :: "string option"
  sheetWelcomeMessage :: "string option"
  sheetThankYouMessage :: "string option"
  sheetIsActive :: "bool option"

text \<open>
  A session: \<open>snapshot\<close> is the field \<^verbatim>\<open>questions\<close> of the session object, the copy
  \<^verbatim>\<open>[...this.questions]\<close> taken when the survey starts.
\<close>

record survey_session =
  currentQuestion :: nat
  answers :: "string list"
  snapshot :: "string list"
  startedAt :: int

record survey_service =
  activeSurveys :: "(string \<times> survey_session) list"
  surveyConfig :: survey_config
  questions :: "string list"

text \<open>
  \<^verbatim>\<open>loadConfig\<close>, given what the two sheet reads return (\<open>None\<close>: the configuration
  read failed and returned null; a failed question read returns the empty list).
\<close>

definition loadConfig ::
  "sheet_survey_config option \<Rightarrow> string list \<Rightarrow> survey_service \<Rightarrow> survey_service" where
  "loadConfig sheetConfig sheetQuestions sv =
     (let c0 = surveyConfig sv;
          c4 = (case sheetConfig of
                  None \<Rightarrow> c0
                | Some config \<Rightarrow>
                    (let c1 = (if truthy (sheetKeyword config)
                               then c0\<lparr>keyword := trim (toLowerCase (the (sheetKeyword config)))\<rparr>
                               else c0);
                         c2 = (if truthy (sheetWelcomeMessage config)
                               then c1\<lparr>welcomeMessage := the (sheetWelcomeMessage config)\<rparr>
                               else c1);
                         c3 = (if truthy (sheetThankYouMessage config)
                               then c2\<lparr>thankYouMessage := the (sheetThankYouMessage config)\<rparr>
                               else c2)
                     in (case sheetIsActive config of
                           None \<Rightarrow> c3
                         | Some a \<Rightarrow> c3\<lparr>isActive := a\<rparr>)))
      in sv\<lparr>surveyConfig := c4, questions := sheetQuestions\<rparr>)"

definition isKeywordTrigger :: "survey_service \<Rightarrow> string \<Rightarrow> bool" where
  "isKeywordTrigger sv message =
     (if \<not> isActive (surveyConfig sv) then False
      else trim (toLowerCase message) = keyword (surveyConfig sv))"

definition hasActiveSurvey :: "survey_service \<Rightarrow> string \<Rightarrow> bool" where
  "hasActiveSurvey sv phoneNumber = (map_of (activeSurveys sv) phoneNumber \<noteq> None)"

text \<open>Decimal rendering of a number inside a template string.\<close>

fun showNat :: "nat \<Rightarrow> string" where
  "showNat n =
     (if n < 10 then [''0123456789'' ! n]
      else showNat (n div 10) @ [''0123456789'' ! (n mod 10)])"

declare showNat.simps [simp del]

definition questionHeader :: "nat \<Rightarrow> nat \<Rightarrow> string" where
  "questionHeader number totalQuestions =
     ''*Pregunta '' @ showNat number @ ''/'' @ showNat totalQuestions @ '':*'' @ [CHR 0x0A]"

text \<open>
  \<^verbatim>\<open>startSurvey\<close>: the configuration is reloaded, then the live question list is
  copied into the new session.
\<close>

definition startSurvey ::
  "sheet_survey_config option \<Rightarrow> string list \<Rightarrow> int \<Rightarrow> string \<Rightarrow> survey_service
     \<Rightarrow> string \<times> survey_service" where
  "startSurvey sheetConfig sheetQuestions now phoneNumber sv0 =
     (let sv = loadConfig sheetConfig sheetQuestions sv0
      in if length (questions sv) = 0
         then (''No hay preguntas configuradas en este momento.'', sv)
         else
           (welcomeMessage (surveyConfig sv) @ [CHR 0x0A, CHR 0x0A]
              @ questionHeader 1 (length (questions sv)) @ questions sv ! 0,
            sv\<lparr>activeSurveys :=
                 AList.update phoneNumber
                   \<lparr>currentQuestion = 0, answers = [], snapshot = questions sv,
                    startedAt = now\<rparr> (activeSurveys sv)\<rparr>))"

text \<open>
  \<^verbatim>\<open>saveSurveyResponses\<close> hands \<^verbatim>\<open>addSurveyResponse\<close> the row and the session's
  questions (the header of an empty sheet).  \<open>stamp\<close> is the rendering of the
  current date, \<^verbatim>\<open>new Date().toLocaleString('es-CL')\<close>.
\<close>

record survey_row =
  row :: "string list"
  headerQuestions :: "string list"

definition saveSurveyResponses :: "string \<Rightarrow> string \<Rightarrow> survey_session \<Rightarrow> survey_row" where
  "saveSurveyResponses stamp phoneNumber survey =
     (let cleanNumber = stripNonDigits phoneNumber
      in \<lparr>row = [stamp, cleanNumber] @ answers survey, headerQuestions = snapshot survey\<rparr>)"

record answer_result =
  message :: string
  isComplete :: bool
  persisted :: "survey_row option"

text \<open>
  \<^verbatim>\<open>processAnswer\<close> is an async function with one point where it waits: the call of
  \<^verbatim>\<open>saveSurveyResponses\<close> on completion.  Up to that point it runs without
  interruption.  \<open>processAnswerBegin\<close> is this first part: the answer is pushed onto
  the session and the position advanced, in the session object the map holds; with
  questions left the call ends there; otherwise the row is built from the answers
  the session holds at that moment, the store is called, and the call waits, the
  session still in the map.  \<open>processAnswerResume\<close> is the rest, run when the store
  has answered: the session is deleted and the thank-you text returned.  Between the
  two, other turns run, turns of the same key included.
\<close>

datatype answer_step = Finished answer_result | AwaitingSave survey_row

definition processAnswerBegin ::
  "string \<Rightarrow> string \<Rightarrow> string \<Rightarrow> survey_service \<Rightarrow> answer_step \<times> survey_service" where
  "processAnswerBegin stamp phoneNumber answer sv =
     (case map_of (activeSurveys sv) phoneNumber of
        None \<Rightarrow> (Finished \<lparr>message = [], isComplete = True, persisted = None\<rparr>, sv)
      | Some survey0 \<Rightarrow>
          (let survey = survey0\<lparr>answers := answers survey0 @ [answer],
                                currentQuestion := currentQuestion survey0 + 1\<rparr>;
               sv1 = sv\<lparr>activeSurveys := AList.update phoneNumber survey (activeSurveys sv)\<rparr>
           in if currentQuestion survey < length (snapshot survey)
              then (let nextQuestion = snapshot survey ! currentQuestion survey;
                        questionNumber = currentQuestion survey + 1;
                        totalQuestions = length (snapshot survey)
                    in (Finished
                          \<lparr>message = questionHeader questionNumber totalQuestions @ nextQuestion,
                           isComplete = False, persisted = None\<rparr>,
                        sv1))
              else (AwaitingSave (saveSurveyResponses stamp phoneNumber survey), sv1)))"

definition processAnswerResume ::
  "string \<Rightarrow> survey_row \<Rightarrow> survey_service \<Rightarrow> answer_result \<times> survey_service" where
  "processAnswerResume phoneNumber saved sv =
     (\<lparr>message = thankYouMessage (surveyConfig sv), isComplete = True,
       persisted = Some saved\<rparr>,
      sv\<lparr>activeSurveys := AList.delete phoneNumber (activeSurveys sv)\<rparr>)"

text \<open>A call of \<^verbatim>\<open>processAnswer\<close> during whose wait nothing else runs.\<close>

definition processAnswer ::
  "string \<Rightarrow> string \<Rightarrow> string \<Rightarrow> survey_service \<Rightarrow> answer_result \<times> survey_service" where
  "processAnswer stamp phoneNumber answer sv =
     (case processAnswerBegin stamp phoneNumber answer sv of
        (Finished result, sv1) \<Rightarrow> (result, sv1)
      | (AwaitingSave saved, sv1) \<Rightarrow> processAnswerResume phoneNumber saved sv1)"

definition cancelSurvey :: "string \<Rightarrow> survey_service \<Rightarrow> bool \<times> survey_service" where
  "cancelSurvey phoneNumber sv =
     (if map_of (activeSurveys sv) phoneNumber \<noteq> None
      then (True, sv\<lparr>activeSurveys := AList.delete phoneNumber (activeSurveys sv)\<rparr>)
      else (False, sv))"

text \<open>The service as its constructor leaves it (message texts in ASCII).\<close>

definition initialSurvey :: survey_service where
  "initialSurvey =
     \<lparr>activeSurveys = [],
      surveyConfig = \<lparr>keyword = ''encuesta'',
                      welcomeMessage = ''Hola! Vamos a hacerte unas preguntas rapidas.'',
                      thankYouMessage = ''Gracias por tus respuestas! Han sido guardadas.'',
                      isActive = True\<rparr>,
      questions = []\<rparr>"

text \<open>
  Answers of one conversation handled one at a time: each call of \<^verbatim>\<open>processAnswer\<close>
  has ended before the next answer arrives.  Before answer \<open>i\<close> the live configuration
  is reloaded from whatever the sheets then hold (\<open>live i\<close>).  The results of the
  answers are collected in order.  (Turns that overlap are written with
  \<open>processAnswerBegin\<close> and \<open>processAnswerResume\<close>.)
\<close>

fun answerAll ::
  "string \<Rightarrow> string \<Rightarrow> (nat \<Rightarrow> sheet_survey_config option \<times> string list) \<Rightarrow> nat
     \<Rightarrow> string list \<Rightarrow> survey_service
     \<Rightarrow> answer_result list \<times> survey_service" where
  "answerAll stamp phoneNumber live i [] sv = ([], sv)"
| "answerAll stamp phoneNumber live i (a # as) sv =
     (let (r, sv1) = processAnswer stamp phoneNumber a
                        (loadConfig (fst (live i)) (snd (live i)) sv);
          (rs, sv2) = answerAll stamp phoneNumber live (Suc i) as sv1
      in (r # rs, sv2))"

text \<open>
  One conversation without overlap: the survey is started, then the answers are
  handled one at a time.
\<close>

definition surveyRun ::
  "sheet_survey_config option \<Rightarrow> string list \<Rightarrow> int \<Rightarrow> string \<Rightarrow> survey_service \<Rightarrow> string
     \<Rightarrow> (nat \<Rightarrow> sheet_survey_config option \<times> string list) \<Rightarrow> string list
     \<Rightarrow> answer_result list \<times> survey_service" where
  "surveyRun sheetConfig sheetQuestions now phoneNumber sv stamp live as =
     answerAll stamp phoneNumber live 0 as
       (snd (startSurvey sheetConfig sheetQuestions now phoneNumber sv))"

section \<open>Debounce aggregator (MessageBufferService)\<close>

text \<open>
  A pending timer is the field \<open>timeout\<close>: the instant at which the callback given to
  \<^verbatim>\<open>setTimeout\<close> is due (\<open>None\<close>: no timer).  \<^verbatim>\<open>clearTimeout\<close> followed by a
  new \<^verbatim>\<open>setTimeout\<close> overwrites it.  The promise a call of \<^verbatim>\<open>addMessage\<close> returns is
  named by a number the caller supplies, and \<open>resolve\<close> holds the number of the promise
  the buffer will settle.  The context object is an opaque string.
\<close>

record pending_buffer =
  messages :: "string list"
  firstMessageTime :: int
  lastContext :: "string option"
  timeout :: "int option"
  resolve :: "nat option"

record buffer_config =
  waitTimeMs :: int
  maxWaitTimeMs :: int
  separator :: string

record buffer_service =
  buffers :: "(string \<times> pending_buffer) list"
  bufferConfig :: buffer_config

text \<open>What a promise is settled with: \<^verbatim>\<open>null\<close>, or the combined turn.\<close>

datatype resolution = Superseded | Combined string nat "string option"

text \<open>\<^verbatim>\<open>xs.join(sep)\<close>.\<close>

fun joinWith :: "string \<Rightarrow> string list \<Rightarrow> string" where
  "joinWith sep [] = []"
| "joinWith sep [x] = x"
| "joinWith sep (x # y # ys) = x @ sep @ joinWith sep (y # ys)"

definition processBuffer ::
  "string \<Rightarrow> buffer_service \<Rightarrow> (nat \<times> resolution) list \<times> buffer_service" where
  "processBuffer phoneNumber svc =
     (case map_of (buffers svc) phoneNumber of
        None \<Rightarrow> ([], svc)
      | Some buffer \<Rightarrow>
          (let combined = joinWith (separator (bufferConfig svc)) (messages buffer);
               count = length (messages buffer);
               ctx = lastContext buffer;
               svc' = svc\<lparr>buffers := AList.delete phoneNumber (buffers svc)\<rparr>
           in case resolve buffer of
                None \<Rightarrow> ([], svc')
              | Some resolveFunc \<Rightarrow> ([(resolveFunc, Combined combined count ctx)], svc')))"

text \<open>
  \<^verbatim>\<open>addMessage\<close>, called at clock reading \<open>now\<close> and returning promise \<open>promise\<close>: the
  promises settled during the call, and the service afterwards.
\<close>

definition addMessage ::
  "int \<Rightarrow> string \<Rightarrow> string \<Rightarrow> string option \<Rightarrow> nat \<Rightarrow> buffer_service
     \<Rightarrow> (nat \<times> resolution) list \<times> buffer_service" where
  "addMessage now phoneNumber msg ctx promise svc =
     (let buffer0 = (case map_of (buffers svc) phoneNumber of
                       None \<Rightarrow> \<lparr>messages = [], firstMessageTime = now, lastContext = ctx,
                                 timeout = None, resolve = None\<rparr>
                     | Some b \<Rightarrow> b);
          buffer1 = buffer0\<lparr>messages := messages buffer0 @ [trim msg], lastContext := ctx\<rparr>;
          stale = (case resolve buffer1 of
                     None \<Rightarrow> []
                   | Some r \<Rightarrow> if r \<noteq> promise then [(r, Superseded)] else []);
          buffer2 = buffer1\<lparr>resolve := Some promise\<rparr>;
          elapsedTime = now - firstMessageTime buffer2;
          remainingMaxTime = maxWaitTimeMs (bufferConfig svc) - elapsedTime;
          waitTime = min (waitTimeMs (bufferConfig svc)) remainingMaxTime
      in if waitTime \<le> 0
         then (let (done, svc') =
                     processBuffer phoneNumber
                       (svc\<lparr>buffers := AList.update phoneNumber buffer2 (buffers svc)\<rparr>)
               in (stale @ done, svc'))
         else (stale,
               svc\<lparr>buffers :=
                     AList.update phoneNumber (buffer2\<lparr>timeout := Some (now + waitTime)\<rparr>)
                       (buffers svc)\<rparr>))"

definition cancelBuffer ::
  "string \<Rightarrow> buffer_service \<Rightarrow> (nat \<times> resolution) list \<times> buffer_service" where
  "cancelBuffer phoneNumber svc =
     (case map_of (buffers svc) phoneNumber of
        None \<Rightarrow> ([], svc)
      | Some buffer \<Rightarrow>
          ((case resolve buffer of None \<Rightarrow> [] | Some r \<Rightarrow> [(r, Superseded)]),
           svc\<lparr>buffers := AList.delete phoneNumber (buffers svc)\<rparr>))"

definition initialBuffers :: buffer_service where
  "initialBuffers =
     \<lparr>buffers = [],
      bufferConfig = \<lparr>waitTimeMs = 2500, maxWaitTimeMs = 10000, separator = '' ''\<rparr>\<rparr>"

text \<open>
  The host's timer queue, for one key.  \<open>fireDue t\<close> runs the key's timer callback if a
  timer is pending and due at \<open>t\<close> or before; the settlement is stamped with the
  instant the timer was due.  \<open>fireLast\<close> lets the time pass until the pending timer,
  if any, has run.
\<close>

definition fireDue ::
  "int \<Rightarrow> string \<Rightarrow> buffer_service \<Rightarrow> (int \<times> nat \<times> resolution) list \<times> buffer_service" where
  "fireDue t phoneNumber svc =
     (case map_of (buffers svc) phoneNumber of
        None \<Rightarrow> ([], svc)
      | Some buffer \<Rightarrow>
          (case timeout buffer of
             None \<Rightarrow> ([], svc)
           | Some due \<Rightarrow>
               if due \<le> t
               then (let (done, svc') = processBuffer phoneNumber svc
                     in (map (Pair due) done, svc'))
               else ([], svc)))"

definition fireLast ::
  "string \<Rightarrow> buffer_service \<Rightarrow> (int \<times> nat \<times> resolution) list \<times> buffer_service" where
  "fireLast phoneNumber svc =
     (case map_of (buffers svc) phoneNumber of
        None \<Rightarrow> ([], svc)
      | Some buffer \<Rightarrow>
          (case timeout buffer of
             None \<Rightarrow> ([], svc)
           | Some due \<Rightarrow> fireDue due phoneNumber svc))"

text \<open>
  A run of one key: fragment \<open>(t, msg, ctx)\<close> arrives at instant \<open>t\<close>; before each
  arrival the due timer runs; promises are numbered in arrival order from \<open>promise\<close>.
  The result lists every settlement as (instant, promise, value), in the order they
  happen.
\<close>

fun submitAll ::
  "string \<Rightarrow> nat \<Rightarrow> (int \<times> string \<times> string option) list \<Rightarrow> buffer_service
     \<Rightarrow> (int \<times> nat \<times> resolution) list \<times> buffer_service" where
  "submitAll phoneNumber promise [] svc = ([], svc)"
| "submitAll phoneNumber promise ((t, msg, ctx) # rest) svc =
     (let (fired, svc1) = fireDue t phoneNumber svc;
          (settled, svc2) = addMessage t phoneNumber msg ctx promise svc1;
          (later, svc3) = submitAll phoneNumber (Suc promise) rest svc2
      in (fired @ map (Pair t) settled @ later, svc3))"

definition runKey ::
  "string \<Rightarrow> (int \<times> string \<times> string option) list \<Rightarrow> buffer_service
     \<Rightarrow> (int \<times> nat \<times> resolution) list \<times> buffer_service" where
  "runKey phoneNumber arrivals svc =
     (let (settled, svc1) = submitAll phoneNumber 0 arrivals svc;
          (final, svc2) = fireLast phoneNumber svc1
      in (settled @ final, svc2))"

text \<open>
  Two predicates for the proofs about runs.  \<open>pendingInv\<close>: a pending buffer, after
  the arrivals \<open>pre\<close>, has a timer that is due no later than the ceiling counted from
  its first fragment, it will settle the promise of the last arrival, and its first
  fragment is the arrival \<open>length (messages b)\<close> places from the end.
  \<open>flushedInTime\<close>: a settlement with a combined text of \<open>n\<close> fragments for promise
  \<open>q\<close> happens no later than the ceiling after the arrival of the first of these
  fragments, which is arrival \<open>q + 1 - n\<close>.
\<close>

definition pendingInv ::
  "buffer_config \<Rightarrow> (int \<times> string \<times> string option) list \<Rightarrow> pending_buffer \<Rightarrow> bool" where
  "pendingInv cfg pre b =
     ((case timeout b of
         None \<Rightarrow> False
       | Some due \<Rightarrow> due \<le> firstMessageTime b + maxWaitTimeMs cfg)
      \<and> resolve b = Some (length pre - 1)
      \<and> messages b \<noteq> []
      \<and> length (messages b) \<le> length pre
      \<and> firstMessageTime b = fst (pre ! (length pre - length (messages b))))"

definition flushedInTime ::
  "buffer_config \<Rightarrow> (int \<times> string \<times> string option) list \<Rightarrow> int \<times> nat \<times> resolution
     \<Rightarrow> bool" where
  "flushedInTime cfg arrivals e =
     (case e of
        (t, q, Superseded) \<Rightarrow> True
      | (t, q, Combined txt n ctx) \<Rightarrow>
          1 \<le> n \<and> n \<le> q + 1 \<and> q < length arrivals
          \<and> t \<le> fst (arrivals ! (q + 1 - n)) + maxWaitTimeMs cfg)"

section \<open>Conversation mode router (app.js, processMessage)\<close>

record flow =
  addKeyword :: string
  addAnswer :: string
  media :: string

text \<open>
  What the collaborators answer during one turn.  \<open>None\<close> is a call that throws.
  The clock is read at the pause check, at the pause itself and at the start of a
  survey.
\<close>

record turn_env =
  blacklist :: "string list option"
  clockPauseCheck :: int
  clockHandoff :: int
  clockSurvey :: int
  surveyStamp :: string
  sheetSurveyConfig :: "sheet_survey_config option"
  sheetSurveyQuestions :: "string list"
  flows :: "flow list option"
  aiResponse :: "string option"
  aiResponseWithWooCommerce :: "string option"

datatype turn_effect =
    Reply string
  | ReplyMedia string string
  | ProviderSend outgoing
  | SurveyAppend survey_row
  | SaveHistory string string

record bot_state =
  handoff :: handoff_service
  survey :: survey_service
  messageBuffer :: buffer_service

text \<open>\<^verbatim>\<open>googleService.isBlacklisted\<close>, on the list \<^verbatim>\<open>getBlacklist\<close> returned.\<close>

definition isBlacklisted :: "string \<Rightarrow> string list \<Rightarrow> bool" where
  "isBlacklisted phoneNumber blocked =
     (let cleanNumber = stripNonDigits phoneNumber
      in list_ex (\<lambda>b. let cleanBlocked = stripNonDigits b
                       in includesStr cleanNumber cleanBlocked
                          \<or> includesStr cleanBlocked cleanNumber) blocked)"

text \<open>Steps 2 and 3 of \<^verbatim>\<open>processMessage\<close>: the sheet's keyword flows, then the responder.\<close>

definition respondFallback :: "turn_env \<Rightarrow> string \<Rightarrow> turn_effect list" where
  "respondFallback env userInput =
     (let inputLower = toLowerCase userInput;
          ai = (case aiResponseWithWooCommerce env of
                  Some r \<Rightarrow> [Reply r]
                | None \<Rightarrow> [Reply ''Disculpa, tuve un problema tecnico. Puedes intentar de nuevo?''])
      in case flows env of
           None \<Rightarrow> ai
         | Some fs \<Rightarrow>
             (case find (\<lambda>f. if addKeyword f = [] then False
                              else (let kw = trim (toLowerCase (addKeyword f))
                                    in kw \<noteq> [] \<and> includesStr inputLower kw)) fs of
                None \<Rightarrow> ai
              | Some triggeredFlow \<Rightarrow>
                  (let answer = trim (addAnswer triggeredFlow);
                       mediaUrl = trim (media triggeredFlow)
                   in if answer = []
                      then (case aiResponse env of Some r \<Rightarrow> [Reply r] | None \<Rightarrow> ai)
                      else [SaveHistory ''user'' userInput, SaveHistory ''assistant'' answer]
                           @ (if mediaUrl \<noteq> [] then [ReplyMedia answer mediaUrl]
                              else [Reply answer]))))"

text \<open>
  \<^verbatim>\<open>processMessage\<close>: the effects of the turn, in order, and the state afterwards,
  for a turn during whose waits no other turn of the service runs.  The state it
  starts from may be one that another turn has left at a wait of its own.
\<close>

definition processMessage ::
  "turn_env \<Rightarrow> string \<Rightarrow> string \<Rightarrow> bot_state \<Rightarrow> turn_effect list \<times> bot_state" where
  "processMessage env phoneNumber userInput st =
     (if (case blacklist env of None \<Rightarrow> False | Some bl \<Rightarrow> isBlacklisted phoneNumber bl)
      then ([], st)
      else
        (case isPaused (clockPauseCheck env) phoneNumber (handoff st) of
           (True, hs) \<Rightarrow> ([], st\<lparr>handoff := hs\<rparr>)
         | (False, hs) \<Rightarrow>
             (let st1 = st\<lparr>handoff := hs\<rparr>
              in if detectHandoffIntent hs userInput
                 then (let (sends, hs') = initiateHandoff (clockHandoff env) phoneNumber userInput hs
                       in (map ProviderSend sends, st1\<lparr>handoff := hs'\<rparr>))
                 else if hasActiveSurvey (survey st1) phoneNumber
                 then (let (result, sv) =
                             processAnswer (surveyStamp env) phoneNumber userInput (survey st1)
                       in ((case persisted result of None \<Rightarrow> [] | Some r \<Rightarrow> [SurveyAppend r])
                           @ (if message result \<noteq> [] then [Reply (message result)] else []),
                           st1\<lparr>survey := sv\<rparr>))
                 else if isKeywordTrigger (survey st1) userInput
                 then (let (welcome, sv) =
                             startSurvey (sheetSurveyConfig env) (sheetSurveyQuestions env)
                               (clockSurvey env) phoneNumber (survey st1)
                       in ([Reply welcome], st1\<lparr>survey := sv\<rparr>))
                 else (respondFallback env userInput, st1))))"

section \<open>Scheduled dispatch engine (scheduled-messages.js)\<close>

subsection \<open>Numbers and dates as JavaScript reads them\<close>

text \<open>\<^verbatim>\<open>parseInt(xs[i])\<close>: a missing element is undefined, which parses to NaN.\<close>

definition parseIntAt :: "string list \<Rightarrow> nat \<Rightarrow> int option" where
  "parseIntAt xs i = (if i < length xs then parseInt (xs ! i) else None)"

text \<open>\<^verbatim>\<open>x || 0\<close> on a number: NaN and 0 both give 0.\<close>

definition orZero :: "int option \<Rightarrow> int" where
  "orZero x = (case x of None \<Rightarrow> 0 | Some v \<Rightarrow> v)"

text \<open>\<^verbatim>\<open>s.split(sep)\<close> for a one-character separator; the empty string gives one empty part.\<close>

fun splitOn :: "char \<Rightarrow> string \<Rightarrow> string list" where
  "splitOn sep [] = [[]]"
| "splitOn sep (c # cs) =
     (if c = sep then [] # splitOn sep cs
      else (case splitOn sep cs of
              [] \<Rightarrow> [[c]]
            | p # ps \<Rightarrow> (c # p) # ps))"

text \<open>
  A \<^verbatim>\<open>Date\<close> object is its time value, or Invalid Date.  Time values are milliseconds
  of local time since the epoch, for a zone with a fixed offset, so that comparing
  two dates compares these numbers.  The constructor follows ECMAScript's MakeDay,
  MakeTime, MakeDate and TimeClip: fields out of their range are carried over into
  the next unit, they are not rejected.
\<close>

datatype jsdate = InvalidDate | TimeValue int

definition dayFromYear :: "int \<Rightarrow> int" where
  "dayFromYear y =
     365 * (y - 1970) + (y - 1969) div 4 - (y - 1901) div 100 + (y - 1601) div 400"

definition inLeapYear :: "int \<Rightarrow> bool" where
  "inLeapYear y = ((y mod 4 = 0 \<and> y mod 100 \<noteq> 0) \<or> y mod 400 = 0)"

definition monthStart :: "int \<Rightarrow> nat \<Rightarrow> int" where
  "monthStart y mn =
     [0, 31, 59, 90, 120, 151, 181, 212, 243, 273, 304, 334] ! mn
       + (if inLeapYear y \<and> 2 \<le> mn then 1 else 0)"

definition makeDay :: "int \<Rightarrow> int \<Rightarrow> int \<Rightarrow> int" where
  "makeDay year month date =
     (let ym = year + month div 12;
          mn = nat (month mod 12)
      in dayFromYear ym + monthStart ym mn + date - 1)"

definition makeTime :: "int \<Rightarrow> int \<Rightarrow> int \<Rightarrow> int" where
  "makeTime hour minute second = hour * 3600000 + minute * 60000 + second * 1000"

text \<open>\<^verbatim>\<open>new Date(year, month, day, hour, minute, second)\<close>.\<close>

definition newDate ::
  "int option \<Rightarrow> int option \<Rightarrow> int option \<Rightarrow> int option \<Rightarrow> int \<Rightarrow> int \<Rightarrow> jsdate" where
  "newDate year month day hour minute second =
     (case (year, month, day, hour) of
        (Some y, Some mo, Some d, Some h) \<Rightarrow>
          (let yr = (if 0 \<le> y \<and> y \<le> 99 then 1900 + y else y);
               tv = makeDay yr mo d * 86400000 + makeTime h minute second
           in if \<bar>tv\<bar> \<le> 8640000000000000 then TimeValue tv else InvalidDate)
      | _ \<Rightarrow> InvalidDate)"

text \<open>
  \<^verbatim>\<open>parseDateTime\<close>: \<open>None\<close> is the returned \<^verbatim>\<open>null\<close>.  The fields are not checked
  against their ranges.
\<close>

definition parseDateTime :: "string \<Rightarrow> jsdate option" where
  "parseDateTime dateTimeStr =
     (if dateTimeStr = [] then None
      else
        (let parts = splitOn CHR '' '' (trim dateTimeStr)
         in if length parts < 2 then None
            else
              (let dateParts = splitOn CHR ''/'' (parts ! 0);
                   timeParts = splitOn CHR '':'' (parts ! 1)
               in if length dateParts < 3 then None
                  else
                    (let day = parseIntAt dateParts 0;
                         month = map_option (\<lambda>m. m - 1) (parseIntAt dateParts 1);
                         year = parseIntAt dateParts 2;
                         hour = parseIntAt timeParts 0;
                         minute = orZero (parseIntAt timeParts 1);
                         second = orZero (parseIntAt timeParts 2)
                     in Some (newDate year month day hour minute second)))))"

subsection \<open>The service\<close>

record sched_config =
  minDelayMs :: int
  maxDelayMs :: int
  maxDailyMessages :: nat
  checkIntervalMs :: int
  startHour :: nat
  endHour :: nat

text \<open>
  \<open>lastResetDate\<close> is the calendar day (a day number) whose \<^verbatim>\<open>toDateString\<close> the
  service holds: two readings give the same string exactly when they fall on the
  same day.  \<open>hasProvider\<close> says that \<^verbatim>\<open>startScheduler\<close> has set the provider.
\<close>

record sched_state =
  isProcessing :: bool
  dailySentCount :: nat
  lastResetDate :: int
  hasProvider :: bool

record scheduled =
  rowIndex :: nat
  numeroWhatsapp :: string
  mensajeTexto :: string
  mediaUrl :: string
  hora :: string
  estado :: string

definition defaultSchedConfig :: sched_config where
  "defaultSchedConfig =
     \<lparr>minDelayMs = 5000, maxDelayMs = 15000, maxDailyMessages = 50,
      checkIntervalMs = 60000, startHour = 6, endHour = 22\<rparr>"

text \<open>The service as its constructor leaves it on day \<open>today\<close>.\<close>

definition initialScheduler :: "int \<Rightarrow> sched_state" where
  "initialScheduler today =
     \<lparr>isProcessing = False, dailySentCount = 0, lastResetDate = today, hasProvider = False\<rparr>"

definition startScheduler :: "sched_state \<Rightarrow> sched_state" where
  "startScheduler st = st\<lparr>hasProvider := True\<rparr>"

text \<open>How \<^verbatim>\<open>provider.sendMessage\<close> ends: it resolves, it rejects with an error that
  has a message, or it rejects with \<^verbatim>\<open>null\<close> or \<^verbatim>\<open>undefined\<close>, and then reading
  \<^verbatim>\<open>sendError.message\<close> in the handler throws out of the loop.\<close>

datatype delivery = Delivered | Rejected string | RejectedNullish

text \<open>
  What one poll reads from outside: the hour and the day of the clock, the rows of the
  sheet \<^verbatim>\<open>Envios\<close> (\<open>None\<close>: the read failed), the clock after the read, the outcome
  of each delivery, and the draws of \<^verbatim>\<open>Math.random()\<close>, by position in the due list.
\<close>

record cycle_env =
  clockHour :: nat
  clockDay :: int
  sheetRows :: "string list list option"
  clockNow :: int
  deliver :: "scheduled \<Rightarrow> delivery"
  randomDraw :: "nat \<Rightarrow> rat"

datatype sched_effect =
    LogDailyReset
  | LogLimitReached nat
  | FetchBacklog
  | LogInvalidHour string string
  | LogToSend nat
  | LogLimitDuring
  | LogSending string
  | SendMessage string string "string option" delivery
  | UpdateStatus nat string
  | LogSent string nat
  | Sleep int
  | LogSendError string string
  | LogCycleError

text \<open>\<^verbatim>\<open>row[i] || ''\<close>.\<close>

definition cell :: "string list \<Rightarrow> nat \<Rightarrow> string" where
  "cell r i = (if i < length r then r ! i else [])"

text \<open>\<^verbatim>\<open>googleService.getScheduledMessages\<close>: a failed read gives the empty list.\<close>

definition getScheduledMessages :: "string list list option \<Rightarrow> scheduled list" where
  "getScheduledMessages sheet =
     (case sheet of
        None \<Rightarrow> []
      | Some rows \<Rightarrow>
          filter (\<lambda>m. numeroWhatsapp m \<noteq> [] \<and> mensajeTexto m \<noteq> [])
            (map (\<lambda>(r, index).
                    \<lparr>rowIndex = index + 2, numeroWhatsapp = cell r 0, mensajeTexto = cell r 1,
                     mediaUrl = cell r 2, hora = cell r 3,
                     estado = (if cell r 4 = [] then ''Pendiente'' else cell r 4)\<rparr>)
               (zip rows [0 ..< length rows])))"

definition isWithinAllowedHours :: "sched_config \<Rightarrow> nat \<Rightarrow> bool" where
  "isWithinAllowedHours cfg hour = (startHour cfg \<le> hour \<and> hour < endHour cfg)"

definition getRandomDelay :: "sched_config \<Rightarrow> rat \<Rightarrow> int" where
  "getRandomDelay cfg r = \<lfloor>r * of_int (maxDelayMs cfg - minDelayMs cfg)\<rfloor> + minDelayMs cfg"

text \<open>
  Every effect of a poll is recorded with the service state in which it happens; the
  calls the poll awaits (the read of the sheet, a delivery, a status update, a sleep)
  are among them, and these are the only points where another poll can start.
\<close>

type_synonym trace = "(sched_state \<times> sched_effect) list"

definition checkDailyReset :: "int \<Rightarrow> sched_state \<Rightarrow> trace \<times> sched_state" where
  "checkDailyReset today st =
     (if today \<noteq> lastResetDate st
      then (let st' = st\<lparr>dailySentCount := 0, lastResetDate := today\<rparr>
            in ([(st', LogDailyReset)], st'))
      else ([], st))"

text \<open>The callback of \<^verbatim>\<open>messages.filter\<close>: whether the entry is due, and what it logs.\<close>

definition dueEntry :: "int \<Rightarrow> scheduled \<Rightarrow> bool \<times> sched_effect list" where
  "dueEntry now m =
     (let estadoLower = toLowerCase (estado m)
      in if estadoLower \<noteq> ''pendiente'' then (False, [])
         else (case parseDateTime (hora m) of
                 None \<Rightarrow> (False, [LogInvalidHour (numeroWhatsapp m) (hora m)])
               | Some InvalidDate \<Rightarrow> (False, [])
               | Some (TimeValue scheduledTime) \<Rightarrow> (scheduledTime \<le> now, [])))"

definition pendingOf :: "int \<Rightarrow> scheduled list \<Rightarrow> scheduled list" where
  "pendingOf now ms = filter (\<lambda>m. fst (dueEntry now m)) ms"

definition filterLogs :: "int \<Rightarrow> scheduled list \<Rightarrow> sched_effect list" where
  "filterLogs now ms = concat (map (\<lambda>m. snd (dueEntry now m)) ms)"

text \<open>
  The \<^verbatim>\<open>for\<close> loop over the due entries; \<open>len\<close> is their number and \<open>i\<close> the position
  of the next one.  The flag of the result says that an error left the loop for the
  outer handler.
\<close>

fun sendLoop ::
  "sched_config \<Rightarrow> cycle_env \<Rightarrow> nat \<Rightarrow> nat \<Rightarrow> scheduled list \<Rightarrow> sched_state
     \<Rightarrow> trace \<times> bool \<times> sched_state" where
  "sendLoop cfg env len i [] st = ([], False, st)"
| "sendLoop cfg env len i (msg # rest) st =
     (if dailySentCount st \<ge> maxDailyMessages cfg then ([(st, LogLimitDuring)], False, st)
      else
        (let numero = stripNonDigits (numeroWhatsapp msg);
             mediaOpt = (if trim (mediaUrl msg) \<noteq> [] then Some (trim (mediaUrl msg)) else None);
             outcome = deliver env msg;
             attempt = [(st, LogSending numero),
                        (st, SendMessage numero (mensajeTexto msg) mediaOpt outcome)]
         in case outcome of
              Delivered \<Rightarrow>
                (let st' = st\<lparr>dailySentCount := dailySentCount st + 1\<rparr>;
                     pause = (if i + 1 < len
                              then [(st', Sleep (getRandomDelay cfg (randomDraw env i)))]
                              else []);
                     (tr, failed, st'') = sendLoop cfg env len (i + 1) rest st'
                 in (attempt @ [(st, UpdateStatus (rowIndex msg) ''Enviado''),
                                (st', LogSent numero (dailySentCount st'))] @ pause @ tr,
                     failed, st''))
            | Rejected err \<Rightarrow>
                (let (tr, failed, st'') = sendLoop cfg env len (i + 1) rest st
                 in (attempt @ [(st, LogSendError (numeroWhatsapp msg) err),
                                (st, UpdateStatus (rowIndex msg) ''Error'')] @ tr,
                     failed, st''))
            | RejectedNullish \<Rightarrow> (attempt, True, st)))"

text \<open>The body of the \<^verbatim>\<open>try\<close> block together with the \<^verbatim>\<open>catch\<close> handler.\<close>

definition cycleBody :: "sched_config \<Rightarrow> cycle_env \<Rightarrow> sched_state \<Rightarrow> trace \<times> sched_state" where
  "cycleBody cfg env st =
     (if \<not> isWithinAllowedHours cfg (clockHour env) then ([], st)
      else
        (let (resetLog, st1) = checkDailyReset (clockDay env) st
         in if dailySentCount st1 \<ge> maxDailyMessages cfg
            then (resetLog @ [(st1, LogLimitReached (dailySentCount st1))], st1)
            else
              (let msgs = getScheduledMessages (sheetRows env);
                   now = clockNow env;
                   pendingMessages = pendingOf now msgs;
                   fetched = resetLog @ [(st1, FetchBacklog)]
                               @ map (Pair st1) (filterLogs now msgs)
               in if length pendingMessages = 0 then (fetched, st1)
                  else
                    (let (tr, failed, st2) =
                           sendLoop cfg env (length pendingMessages) 0 pendingMessages st1
                     in (fetched @ [(st1, LogToSend (length pendingMessages))] @ tr
                           @ (if failed then [(st2, LogCycleError)] else []),
                         st2)))))"

text \<open>
  \<^verbatim>\<open>processScheduledMessages\<close>: the guard, the flag, the body, and the \<^verbatim>\<open>finally\<close>
  block.
\<close>

definition processScheduledMessages ::
  "sched_config \<Rightarrow> cycle_env \<Rightarrow> sched_state \<Rightarrow> trace \<times> sched_state" where
  "processScheduledMessages cfg env st =
     (if isProcessing st \<or> \<not> hasProvider st then ([], st)
      else
        (let st1 = st\<lparr>isProcessing := True\<rparr>;
             (tr, st2) = cycleBody cfg env st1
         in (tr, st2\<lparr>isProcessing := False\<rparr>)))"

text \<open>
  Successive polls, each run to its end before the next starts; every poll is listed
  with the day its clock showed.
\<close>

fun runCycles ::
  "sched_config \<Rightarrow> cycle_env list \<Rightarrow> sched_state \<Rightarrow> (int \<times> trace) list \<times> sched_state" where
  "runCycles cfg [] st = ([], st)"
| "runCycles cfg (env # envs) st =
     (let (tr, st1) = processScheduledMessages cfg env st;
          (later, st2) = runCycles cfg envs st1
      in ((clockDay env, tr) # later, st2))"

text \<open>
  An example poll at noon of day \<open>day\<close>: the sheet holds two rows with the due date
  \<open>due\<close>, the second without a status, and every delivery ends as \<open>outcome\<close>.
\<close>

definition examplePoll :: "int \<Rightarrow> string \<Rightarrow> delivery \<Rightarrow> cycle_env" where
  "examplePoll day due outcome =
     \<lparr>clockHour = 12, clockDay = day,
      sheetRows = Some [[''+56 9 1111 2222'', ''Hola'', '''', due, ''Pendiente''],
                        [''56933334444'', ''Oferta'', '''', due]],
      clockNow = day * 86400000 + 43200000, deliver = (\<lambda>m. outcome),
      randomDraw = (\<lambda>i. 0)\<rparr>"

definition isDelivered :: "sched_effect \<Rightarrow> bool" where
  "isDelivered e = (case e of SendMessage n b m Delivered \<Rightarrow> True | _ \<Rightarrow> False)"

definition deliveredCount :: "trace \<Rightarrow> nat" where
  "deliveredCount tr = length (filter (\<lambda>(st, e). isDelivered e) tr)"

definition deliveredOn :: "int \<Rightarrow> (int \<times> trace) list \<Rightarrow> nat" where
  "deliveredOn d polls =
     sum_list (map (\<lambda>(day, tr). if day = d then deliveredCount tr else 0) polls)"

section \<open>Handoff pause manager: properties\<close>


lemma map_of_pauseChat:
  "map_of (pausedChats (pauseChat now p r hs)) =
     (map_of (pausedChats hs))(stripNonDigits p \<mapsto>
        \<lparr>pausedAt = now, expiresAt = now + pauseMinutes (handoffConfig hs) * 60 * 1000,
         reason = r\<rparr>)"
  by (simp add: pauseChat_def Let_def AList.update_conv')


lemma isPaused_after_pauseChat:
  assumes "0 \<le> pauseMinutes (handoffConfig hs)" "now \<le> t"
    "t \<le> now + pauseMinutes (handoffConfig hs) * 60 * 1000"
    "stripNonDigits a = stripNonDigits b"
  shows "isPaused t b (pauseChat now a r hs) = (True, pauseChat now a r hs)"
  using assms by (simp add: isPaused_def Let_def map_of_pauseChat)


lemma stripNonDigits_example: "stripNonDigits ''+56 9 1111 2222'' = ''56911112222''"
  by (simp add: stripNonDigits_def isDigit_def)







section \<open>Survey flow engine: properties\<close>

lemma activeSurveys_loadConfig: "activeSurveys (loadConfig c q sv) = activeSurveys sv"
  by (simp add: loadConfig_def Let_def split: option.splits)

lemma startSurvey_session:
  "qs \<noteq> [] \<Longrightarrow>
   map_of (activeSurveys (snd (startSurvey c qs now k sva))) k
     = Some \<lparr>currentQuestion = 0, answers = [], snapshot = qs, startedAt = now\<rparr>"
  by (simp add: startSurvey_def Let_def loadConfig_def AList.update_conv' split: option.splits)

lemma processAnswer_next:
  assumes "map_of (activeSurveys sv) k
             = Some \<lparr>currentQuestion = c, answers = sofar, snapshot = qs, startedAt = t0\<rparr>"
    and "c + 1 < length qs"
  shows "fst (processAnswer stamp k a sv)
           = \<lparr>message = questionHeader (c + 2) (length qs) @ qs ! (c + 1),
              isComplete = False, persisted = None\<rparr>"
    and "map_of (activeSurveys (snd (processAnswer stamp k a sv))) k
           = Some \<lparr>currentQuestion = c + 1, answers = sofar @ [a], snapshot = qs, startedAt = t0\<rparr>"
  using assms
  by (simp_all add: processAnswer_def processAnswerBegin_def Let_def AList.update_conv')

lemma processAnswer_last:
  assumes "map_of (activeSurveys sv) k
             = Some \<lparr>currentQuestion = c, answers = sofar, snapshot = qs, startedAt = t0\<rparr>"
    and "\<not> c + 1 < length qs"
  shows "fst (processAnswer stamp k a sv)
           = \<lparr>message = thankYouMessage (surveyConfig sv), isComplete = True,
              persisted = Some \<lparr>row = [stamp, stripNonDigits k] @ sofar @ [a],
                                headerQuestions = qs\<rparr>\<rparr>"
    and "map_of (activeSurveys (snd (processAnswer stamp k a sv))) k = None"
  using assms
  by (simp_all add: processAnswer_def processAnswerBegin_def processAnswerResume_def Let_def
        AList.delete_conv' saveSurveyResponses_def)


lemma answerAll_run:
  "map_of (activeSurveys sv) k
     = Some \<lparr>currentQuestion = length sofar, answers = sofar, snapshot = qs, startedAt = t0\<rparr>
   \<Longrightarrow> length sofar + length ans \<le> length qs
   \<Longrightarrow> length (fst (answerAll stamp k live i ans sv)) = length ans
     \<and> (\<forall>j < length ans. length sofar + j + 1 < length qs \<longrightarrow>
           fst (answerAll stamp k live i ans sv) ! j
             = \<lparr>message = questionHeader (length sofar + j + 2) (length qs)
                            @ qs ! (length sofar + j + 1),
                isComplete = False, persisted = None\<rparr>)
     \<and> (length sofar + length ans = length qs \<and> ans \<noteq> [] \<longrightarrow>
           isComplete (last (fst (answerAll stamp k live i ans sv)))
         \<and> persisted (last (fst (answerAll stamp k live i ans sv)))
             = Some \<lparr>row = [stamp, stripNonDigits k] @ sofar @ ans, headerQuestions = qs\<rparr>
         \<and> map_of (activeSurveys (snd (answerAll stamp k live i ans sv))) k = None)
     \<and> (length sofar + length ans < length qs \<longrightarrow>
           map_of (activeSurveys (snd (answerAll stamp k live i ans sv))) k
             = Some \<lparr>currentQuestion = length sofar + length ans, answers = sofar @ ans,
                     snapshot = qs, startedAt = t0\<rparr>)"
proof (induction ans arbitrary: sv i sofar)
  case Nil
  then show ?case by simp
next
  case (Cons a ans)
  let ?sv = "loadConfig (fst (live i)) (snd (live i)) sv"
  have m: "map_of (activeSurveys ?sv) k
     = Some \<lparr>currentQuestion = length sofar, answers = sofar, snapshot = qs, startedAt = t0\<rparr>"
    using Cons.prems(1) by (simp add: activeSurveys_loadConfig)
  obtain r sv1 where p: "processAnswer stamp k a ?sv = (r, sv1)" by fastforce
  obtain rs sv2 where q: "answerAll stamp k live (Suc i) ans sv1 = (rs, sv2)" by fastforce
  have unf: "answerAll stamp k live i (a # ans) sv = (r # rs, sv2)" by (simp add: p q)
  show ?case
  proof (cases "length sofar + 1 < length qs")
    case True
    from processAnswer_next [OF m True, of stamp a] p
    have r: "r = \<lparr>message = questionHeader (length sofar + 2) (length qs) @ qs ! (length sofar + 1),
                  isComplete = False, persisted = None\<rparr>"
      and s1: "map_of (activeSurveys sv1) k
         = Some \<lparr>currentQuestion = length (sofar @ [a]), answers = sofar @ [a], snapshot = qs,
                 startedAt = t0\<rparr>"
      by simp_all
    have len: "length (sofar @ [a]) + length ans \<le> length qs" using Cons.prems(2) by simp
    have IH: "length rs = length ans
     \<and> (\<forall>j < length ans. length (sofar @ [a]) + j + 1 < length qs \<longrightarrow>
           rs ! j = \<lparr>message = questionHeader (length (sofar @ [a]) + j + 2) (length qs)
                            @ qs ! (length (sofar @ [a]) + j + 1),
                isComplete = False, persisted = None\<rparr>)
     \<and> (length (sofar @ [a]) + length ans = length qs \<and> ans \<noteq> [] \<longrightarrow>
           isComplete (last rs)
         \<and> persisted (last rs)
             = Some \<lparr>row = [stamp, stripNonDigits k] @ (sofar @ [a]) @ ans, headerQuestions = qs\<rparr>
         \<and> map_of (activeSurveys sv2) k = None)
     \<and> (length (sofar @ [a]) + length ans < length qs \<longrightarrow>
           map_of (activeSurveys sv2) k
             = Some \<lparr>currentQuestion = length (sofar @ [a]) + length ans, answers = (sofar @ [a]) @ ans,
                     snapshot = qs, startedAt = t0\<rparr>)"
      using Cons.IH [OF s1 len, of "Suc i"] by (simp add: q)
    have c1: "length (r # rs) = length (a # ans)" using IH by simp
    have c2: "(r # rs) ! j
             = \<lparr>message = questionHeader (length sofar + j + 2) (length qs)
                            @ qs ! (length sofar + j + 1),
                isComplete = False, persisted = None\<rparr>"
      if "j < length (a # ans)" "length sofar + j + 1 < length qs" for j
    proof (cases j)
      case 0
      then show ?thesis using r by simp
    next
      case (Suc j')
      with that IH show ?thesis by simp
    qed
    have ne: "ans \<noteq> []" if "length sofar + length (a # ans) = length qs"
      using that True by auto
    have c3: "isComplete (last (r # rs))
         \<and> persisted (last (r # rs))
             = Some \<lparr>row = [stamp, stripNonDigits k] @ sofar @ (a # ans), headerQuestions = qs\<rparr>
         \<and> map_of (activeSurveys sv2) k = None"
      if "length sofar + length (a # ans) = length qs"
    proof -
      from ne [OF that] have n: "ans \<noteq> []" .
      with IH have "rs \<noteq> []" by auto
      then show ?thesis using IH n that by simp
    qed
    have c4: "map_of (activeSurveys sv2) k
             = Some \<lparr>currentQuestion = length sofar + length (a # ans), answers = sofar @ (a # ans),
                     snapshot = qs, startedAt = t0\<rparr>"
      if "length sofar + length (a # ans) < length qs"
      using IH that by simp
    show ?thesis unfolding unf using c1 c2 c3 c4 by simp
  next
    case False
    from False Cons.prems(2) have "\<not> 0 < length ans" by (simp del: length_greater_0_conv)
    then have e: "ans = []" by simp
    from False Cons.prems(2) have l: "length sofar + 1 = length qs" by simp
    from processAnswer_last [OF m False, of stamp a] p
    have r: "r = \<lparr>message = thankYouMessage (surveyConfig ?sv), isComplete = True,
              persisted = Some \<lparr>row = [stamp, stripNonDigits k] @ sofar @ [a],
                                headerQuestions = qs\<rparr>\<rparr>"
      and s1: "map_of (activeSurveys sv1) k = None"
      by simp_all
    from q e have "rs = []" "sv2 = sv1" by simp_all
    then show ?thesis unfolding unf using r s1 e l by simp
  qed
qed

lemma surveyRun_facts:
  assumes "qs \<noteq> []" "length ans \<le> length qs"
  shows "length (fst (surveyRun c qs now k sva stamp live ans)) = length ans
     \<and> (\<forall>j < length ans. j + 1 < length qs \<longrightarrow>
           fst (surveyRun c qs now k sva stamp live ans) ! j
             = \<lparr>message = questionHeader (j + 2) (length qs) @ qs ! (j + 1),
                isComplete = False, persisted = None\<rparr>)
     \<and> (length ans = length qs \<longrightarrow>
           isComplete (last (fst (surveyRun c qs now k sva stamp live ans)))
         \<and> persisted (last (fst (surveyRun c qs now k sva stamp live ans)))
             = Some \<lparr>row = [stamp, stripNonDigits k] @ ans, headerQuestions = qs\<rparr>
         \<and> map_of (activeSurveys (snd (surveyRun c qs now k sva stamp live ans))) k = None)
     \<and> (length ans < length qs \<longrightarrow>
           map_of (activeSurveys (snd (surveyRun c qs now k sva stamp live ans))) k
             = Some \<lparr>currentQuestion = length ans, answers = ans,
                     snapshot = qs, startedAt = now\<rparr>)"
proof -
  have s: "map_of (activeSurveys (snd (startSurvey c qs now k sva))) k
     = Some \<lparr>currentQuestion = length ([]::string list), answers = [], snapshot = qs,
             startedAt = now\<rparr>"
    using assms(1) by (simp add: startSurvey_session)
  have l: "length ([]::string list) + length ans \<le> length qs" using assms(2) by simp
  have ne: "ans \<noteq> []" if "length ans = length qs" using that assms(1) by auto
  from answerAll_run [OF s l, of stamp live 0] ne show ?thesis
    unfolding surveyRun_def by simp
qed

text \<open>
  Turns handled one at a time follow the snapshot.  A survey started with a non-empty
  question list \<open>qs\<close> keeps \<open>qs\<close> as its snapshot whatever the live configuration is
  reloaded to before each answer.  The reply to answer \<open>j\<close> shows snapshot question
  \<open>j + 1\<close> (question 0 is shown by \<^verbatim>\<open>startSurvey\<close>).  The survey completes with
  the answer number \<open>length qs\<close> and not before; at completion the answers handed on
  are all the answers in order, as many as the snapshot has questions, and the
  session is gone.
\<close>

lemma serial_survey_follows_snapshot:
  "qs \<noteq> [] \<longrightarrow>
     fst (startSurvey c qs now k sva)
       = welcomeMessage (surveyConfig (loadConfig c qs sva)) @ [CHR 0x0A, CHR 0x0A]
           @ questionHeader 1 (length qs) @ qs ! 0
   \<and> (length part < length qs \<longrightarrow>
        (\<forall>j < length part.
           fst (surveyRun c qs now k sva stamp live part) ! j
             = \<lparr>message = questionHeader (j + 2) (length qs) @ qs ! (j + 1),
                isComplete = False, persisted = None\<rparr>)
      \<and> map_of (activeSurveys (snd (surveyRun c qs now k sva stamp live part))) k
          = Some \<lparr>currentQuestion = length part, answers = part, snapshot = qs,
                  startedAt = now\<rparr>)
   \<and> (length ans = length qs \<longrightarrow>
        length (fst (surveyRun c qs now k sva stamp live ans)) = length qs
      \<and> (\<forall>j. j + 1 < length qs \<longrightarrow>
           fst (surveyRun c qs now k sva stamp live ans) ! j
             = \<lparr>message = questionHeader (j + 2) (length qs) @ qs ! (j + 1),
                isComplete = False, persisted = None\<rparr>)
      \<and> isComplete (last (fst (surveyRun c qs now k sva stamp live ans)))
      \<and> map_option headerQuestions
           (persisted (last (fst (surveyRun c qs now k sva stamp live ans)))) = Some qs
      \<and> map_option (\<lambda>r. drop 2 (row r))
           (persisted (last (fst (surveyRun c qs now k sva stamp live ans)))) = Some ans
      \<and> map_option (\<lambda>r. length (drop 2 (row r)))
           (persisted (last (fst (surveyRun c qs now k sva stamp live ans)))) = Some (length qs)
      \<and> map_of (activeSurveys (snd (surveyRun c qs now k sva stamp live ans))) k = None)"
proof (intro impI conjI)
  assume q: "qs \<noteq> []"
  show "fst (startSurvey c qs now k sva)
       = welcomeMessage (surveyConfig (loadConfig c qs sva)) @ [CHR 0x0A, CHR 0x0A]
           @ questionHeader 1 (length qs) @ qs ! 0"
    using q by (simp add: startSurvey_def Let_def loadConfig_def split: option.splits)
  {
    assume l: "length part < length qs"
    then have le: "length part \<le> length qs" by simp
    note F = surveyRun_facts [OF q le, of c now k sva stamp live]
    show "\<forall>j < length part.
           fst (surveyRun c qs now k sva stamp live part) ! j
             = \<lparr>message = questionHeader (j + 2) (length qs) @ qs ! (j + 1),
                isComplete = False, persisted = None\<rparr>"
      using F l by simp
    show "map_of (activeSurveys (snd (surveyRun c qs now k sva stamp live part))) k
          = Some \<lparr>currentQuestion = length part, answers = part, snapshot = qs,
                  startedAt = now\<rparr>"
      using F l by simp
  }
  {
    assume e: "length ans = length qs"
    then have le: "length ans \<le> length qs" by simp
    note F = surveyRun_facts [OF q le, of c now k sva stamp live]
    show "length (fst (surveyRun c qs now k sva stamp live ans)) = length qs"
      using F e by simp
    show "\<forall>j. j + 1 < length qs \<longrightarrow>
           fst (surveyRun c qs now k sva stamp live ans) ! j
             = \<lparr>message = questionHeader (j + 2) (length qs) @ qs ! (j + 1),
                isComplete = False, persisted = None\<rparr>"
      using F e by simp
    show "isComplete (last (fst (surveyRun c qs now k sva stamp live ans)))"
      using F e by simp
    show "map_option headerQuestions
           (persisted (last (fst (surveyRun c qs now k sva stamp live ans)))) = Some qs"
      using F e by simp
    show "map_option (\<lambda>r. drop 2 (row r))
           (persisted (last (fst (surveyRun c qs now k sva stamp live ans)))) = Some ans"
      using F e by simp
    show "map_option (\<lambda>r. length (drop 2 (row r)))
           (persisted (last (fst (surveyRun c qs now k sva stamp live ans)))) = Some (length qs)"
      using F e by simp
    show "map_of (activeSurveys (snd (surveyRun c qs now k sva stamp live ans))) k = None"
      using F e by simp
  }
qed

text \<open>
  Claim C6 (the code departs from it).  A survey with one question.  The first answer
  completes it: \<^verbatim>\<open>processAnswer\<close> has pushed the answer, built the row and is waiting
  for the results store, and the session is still in the map.  A second turn of the
  same key that is handled during this wait finds the survey active, so the router
  hands it to \<^verbatim>\<open>processAnswer\<close>, which pushes a second answer onto the same session
  and completes it again: a row with two answers goes to the store next to a
  snapshot of one question.
\<close>

theorem overlapping_turn_extra_answer:
  "fst (processAnswerBegin ''03-11-2026, 10:00:00'' ''56911112222'' ''a1''
         (snd (startSurvey None [''q1''] 0 ''56911112222'' initialSurvey)))
     = AwaitingSave \<lparr>row = [''03-11-2026, 10:00:00'', ''56911112222'', ''a1''],
                     headerQuestions = [''q1'']\<rparr>
   \<and> hasActiveSurvey
         (snd (processAnswerBegin ''03-11-2026, 10:00:00'' ''56911112222'' ''a1''
                (snd (startSurvey None [''q1''] 0 ''56911112222'' initialSurvey))))
         ''56911112222''
   \<and> fst (processAnswerBegin ''03-11-2026, 10:00:03'' ''56911112222'' ''a2''
         (snd (processAnswerBegin ''03-11-2026, 10:00:00'' ''56911112222'' ''a1''
                (snd (startSurvey None [''q1''] 0 ''56911112222'' initialSurvey)))))
     = AwaitingSave \<lparr>row = [''03-11-2026, 10:00:03'', ''56911112222'', ''a1'', ''a2''],
                     headerQuestions = [''q1'']\<rparr>
   \<and> fst (processMessage
         \<lparr>blacklist = Some [], clockPauseCheck = 3000, clockHandoff = 3000, clockSurvey = 3000,
          surveyStamp = ''03-11-2026, 10:00:03'', sheetSurveyConfig = None,
          sheetSurveyQuestions = [''q1''], flows = Some [], aiResponse = None,
          aiResponseWithWooCommerce = None\<rparr>
         ''56911112222'' ''a2''
         \<lparr>handoff = initialHandoff,
          survey = snd (processAnswerBegin ''03-11-2026, 10:00:00'' ''56911112222'' ''a1''
                         (snd (startSurvey None [''q1''] 0 ''56911112222'' initialSurvey))),
          messageBuffer = initialBuffers\<rparr>)
     = [SurveyAppend \<lparr>row = [''03-11-2026, 10:00:03'', ''56911112222'', ''a1'', ''a2''],
                      headerQuestions = [''q1'']\<rparr>,
        Reply ''Gracias por tus respuestas! Han sido guardadas.'']"
  by code_simp

text \<open>
  Claim C7, as stated, fails: the row of a completed survey starts with the date
  stamp, so it is not the key followed by the answers.  Three questions, three answers:
\<close>

theorem persisted_row_counterexample:
  "map_option row
     (persisted (last (fst (surveyRun None [''q1'', ''q2'', ''q3''] 0 ''56911112222''
        initialSurvey ''03-11-2026, 10:00:00'' (\<lambda>i. (None, [''q1'', ''q2'', ''q3'']))
        [''a1'', ''a2'', ''a3'']))))
     = Some [''03-11-2026, 10:00:00'', ''56911112222'', ''a1'', ''a2'', ''a3'']
   \<and> map_option row
     (persisted (last (fst (surveyRun None [''q1'', ''q2'', ''q3''] 0 ''56911112222''
        initialSurvey ''03-11-2026, 10:00:00'' (\<lambda>i. (None, [''q1'', ''q2'', ''q3'']))
        [''a1'', ''a2'', ''a3'']))))
     \<noteq> Some [''56911112222'', ''a1'', ''a2'', ''a3'']"
proof -
  have q: "[''q1'', ''q2'', ''q3''] \<noteq> []" by simp
  have l: "length [''a1'', ''a2'', ''a3''] \<le> length [''q1'', ''q2'', ''q3'']" by simp
  have d: "stripNonDigits ''56911112222'' = ''56911112222''"
    by (simp add: stripNonDigits_def isDigit_def)
  from surveyRun_facts [OF q l, of None 0 "''56911112222''" initialSurvey
      "''03-11-2026, 10:00:00''" "\<lambda>i. (None, [''q1'', ''q2'', ''q3''])"]
  show ?thesis by (simp add: d)
qed

text \<open>
  Claim C7, amended.  The row handed to the results store for a completed survey is
  the date stamp, then the digits of the key, then the answers in order; the
  snapshot of the questions goes with it as the header of an empty sheet.
\<close>

theorem completed_survey_row:
  "row (saveSurveyResponses stamp k session) = [stamp, stripNonDigits k] @ answers session
   \<and> (qs \<noteq> [] \<and> length ans = length qs \<longrightarrow>
        persisted (last (fst (surveyRun c qs now k sva stamp live ans)))
          = Some \<lparr>row = [stamp, stripNonDigits k] @ ans, headerQuestions = qs\<rparr>)"
proof (intro conjI impI)
  show "row (saveSurveyResponses stamp k session) = [stamp, stripNonDigits k] @ answers session"
    by (simp add: saveSurveyResponses_def Let_def)
next
  assume a: "qs \<noteq> [] \<and> length ans = length qs"
  then have q: "qs \<noteq> []" and le: "length ans \<le> length qs" by simp_all
  from surveyRun_facts [OF q le, of c now k sva stamp live] a
  show "persisted (last (fst (surveyRun c qs now k sva stamp live ans)))
          = Some \<lparr>row = [stamp, stripNonDigits k] @ ans, headerQuestions = qs\<rparr>"
    by simp
qed

theorem completed_survey_row_witness:
  "[''q1'', ''q2'', ''q3''] \<noteq> []
   \<and> length [''a1'', ''a2'', ''a3''] = length [''q1'', ''q2'', ''q3'']
   \<and> persisted (last (fst (surveyRun None [''q1'', ''q2'', ''q3''] 0 ''+56 9 1111 2222''
        initialSurvey ''03-11-2026, 10:00:00'' (\<lambda>i. (None, [])) [''a1'', ''a2'', ''a3''])))
       = Some \<lparr>row = [''03-11-2026, 10:00:00'', ''56911112222'', ''a1'', ''a2'', ''a3''],
               headerQuestions = [''q1'', ''q2'', ''q3'']\<rparr>"
proof -
  have q: "[''q1'', ''q2'', ''q3''] \<noteq> []
     \<and> length [''a1'', ''a2'', ''a3''] = length [''q1'', ''q2'', ''q3'']" by simp
  show ?thesis
    using completed_survey_row [where qs = "[''q1'', ''q2'', ''q3'']"
        and ans = "[''a1'', ''a2'', ''a3'']" and c = None and now = 0
        and k = "''+56 9 1111 2222''" and sva = initialSurvey
        and stamp = "''03-11-2026, 10:00:00''" and live = "\<lambda>i. (None, [])"]
      q stripNonDigits_example
    by simp
qed

section \<open>Conversation mode router: properties\<close>

lemma isPaused_True_unchanged: "fst (isPaused t p hs) \<Longrightarrow> snd (isPaused t p hs) = hs"
  by (auto simp add: isPaused_def Let_def split: option.splits if_splits)

text \<open>
  Claim C9.  When \<^verbatim>\<open>isPaused\<close> answers true for the key of a turn,
  \<^verbatim>\<open>processMessage\<close> produces no effect at all (no reply, no message through the
  provider, nothing appended to the survey sheet) and leaves the whole state as it
  was: the pause records, the survey sessions and the buffers.  The pause check comes
  before the survey check, so an active survey of that key is not advanced.
\<close>

theorem paused_turn_dropped:
  "fst (isPaused (clockPauseCheck env) phoneNumber (handoff st))
   \<longrightarrow> processMessage env phoneNumber userInput st = ([], st)"
proof
  assume p: "fst (isPaused (clockPauseCheck env) phoneNumber (handoff st))"
  obtain b hs where e: "isPaused (clockPauseCheck env) phoneNumber (handoff st) = (b, hs)"
    by (cases "isPaused (clockPauseCheck env) phoneNumber (handoff st)")
  from p e have b: "b" by simp
  from isPaused_True_unchanged [OF p] e have hs: "hs = handoff st" by simp
  show "processMessage env phoneNumber userInput st = ([], st)"
    by (simp add: processMessage_def e b hs)
qed

theorem paused_turn_dropped_witness:
  "fst (isPaused 1000 ''56911112222'' (pauseChat 0 ''56911112222'' ''agente'' initialHandoff))
   \<and> hasActiveSurvey (snd (startSurvey None [''q1'', ''q2''] 0 ''56911112222'' initialSurvey))
         ''56911112222''
   \<and> processMessage
         \<lparr>blacklist = Some [], clockPauseCheck = 1000, clockHandoff = 1000, clockSurvey = 1000,
          surveyStamp = ''03-11-2026'', sheetSurveyConfig = None, sheetSurveyQuestions = [],
          flows = Some [], aiResponse = None, aiResponseWithWooCommerce = None\<rparr>
         ''56911112222'' ''mi respuesta''
         \<lparr>handoff = pauseChat 0 ''56911112222'' ''agente'' initialHandoff,
          survey = snd (startSurvey None [''q1'', ''q2''] 0 ''56911112222'' initialSurvey),
          messageBuffer = initialBuffers\<rparr>
       = ([], \<lparr>handoff = pauseChat 0 ''56911112222'' ''agente'' initialHandoff,
               survey = snd (startSurvey None [''q1'', ''q2''] 0 ''56911112222'' initialSurvey),
               messageBuffer = initialBuffers\<rparr>)"
proof -
  have h: "fst (isPaused 1000 ''56911112222''
                  (pauseChat 0 ''56911112222'' ''agente'' initialHandoff))"
    by (simp add: isPaused_after_pauseChat initialHandoff_def)
  have a: "hasActiveSurvey (snd (startSurvey None [''q1'', ''q2''] 0 ''56911112222'' initialSurvey))
         ''56911112222''"
    by (simp add: hasActiveSurvey_def startSurvey_session)
  show ?thesis
    using paused_turn_dropped [where phoneNumber = "''56911112222''"
        and userInput = "''mi respuesta''"
        and env = "\<lparr>blacklist = Some [], clockPauseCheck = 1000, clockHandoff = 1000,
          clockSurvey = 1000, surveyStamp = ''03-11-2026'', sheetSurveyConfig = None,
          sheetSurveyQuestions = [], flows = Some [], aiResponse = None,
          aiResponseWithWooCommerce = None\<rparr>"
        and st = "\<lparr>handoff = pauseChat 0 ''56911112222'' ''agente'' initialHandoff,
          survey = snd (startSurvey None [''q1'', ''q2''] 0 ''56911112222'' initialSurvey),
          messageBuffer = initialBuffers\<rparr>"]
      h a
    by simp
qed

section \<open>Debounce aggregator: properties\<close>

lemma processBuffer_some:
  assumes "map_of (buffers svc) k = Some b" "resolve b = Some q"
  shows "fst (processBuffer k svc)
           = [(q, Combined (joinWith (separator (bufferConfig svc)) (messages b))
                    (length (messages b)) (lastContext b))]"
    and "map_of (buffers (snd (processBuffer k svc))) k = None"
    and "bufferConfig (snd (processBuffer k svc)) = bufferConfig svc"
  using assms by (simp_all add: processBuffer_def Let_def AList.delete_conv')

lemma fireDue_none:
  assumes "map_of (buffers svc) k = None"
  shows "fireDue t k svc = ([], svc)"
  using assms by (simp add: fireDue_def)

lemma fireDue_later:
  assumes "map_of (buffers svc) k = Some b" "timeout b = Some d" "t < d"
  shows "fireDue t k svc = ([], svc)"
  using assms by (simp add: fireDue_def)

lemma fireDue_fires:
  assumes "map_of (buffers svc) k = Some b" "timeout b = Some d" "d \<le> t" "resolve b = Some q"
  shows "fst (fireDue t k svc)
           = [(d, q, Combined (joinWith (separator (bufferConfig svc)) (messages b))
                       (length (messages b)) (lastContext b))]"
    and "map_of (buffers (snd (fireDue t k svc))) k = None"
    and "bufferConfig (snd (fireDue t k svc)) = bufferConfig svc"
  using assms processBuffer_some [OF assms(1) assms(4)]
  by (simp_all add: fireDue_def split_beta)

lemma addMessage_config: "bufferConfig (snd (addMessage now k m c p svc)) = bufferConfig svc"
  by (simp add: addMessage_def processBuffer_def Let_def split_beta split: option.splits)

lemma addMessage_fresh_wait:
  assumes "map_of (buffers svc) k = None"
    and "\<not> min (waitTimeMs (bufferConfig svc)) (maxWaitTimeMs (bufferConfig svc)) \<le> 0"
  shows "fst (addMessage now k m c p svc) = []"
    and "map_of (buffers (snd (addMessage now k m c p svc))) k
           = Some \<lparr>messages = [trim m], firstMessageTime = now, lastContext = c,
                   timeout = Some (now + min (waitTimeMs (bufferConfig svc))
                                             (maxWaitTimeMs (bufferConfig svc))),
                   resolve = Some p\<rparr>"
  using assms by (simp_all add: addMessage_def Let_def AList.update_conv')

lemma addMessage_fresh_flush:
  assumes "map_of (buffers svc) k = None"
    and "min (waitTimeMs (bufferConfig svc)) (maxWaitTimeMs (bufferConfig svc)) \<le> 0"
  shows "fst (addMessage now k m c p svc) = [(p, Combined (trim m) 1 c)]"
    and "map_of (buffers (snd (addMessage now k m c p svc))) k = None"
  using assms
  by (simp_all add: addMessage_def processBuffer_def Let_def AList.update_conv'
        AList.delete_conv')

lemma addMessage_pending_wait:
  assumes "map_of (buffers svc) k = Some b" "resolve b = Some q" "q \<noteq> p"
    and "\<not> min (waitTimeMs (bufferConfig svc))
             (maxWaitTimeMs (bufferConfig svc) - (now - firstMessageTime b)) \<le> 0"
  shows "fst (addMessage now k m c p svc) = [(q, Superseded)]"
    and "map_of (buffers (snd (addMessage now k m c p svc))) k
           = Some \<lparr>messages = messages b @ [trim m], firstMessageTime = firstMessageTime b,
                   lastContext = c,
                   timeout = Some (now + min (waitTimeMs (bufferConfig svc))
                     (maxWaitTimeMs (bufferConfig svc) - (now - firstMessageTime b))),
                   resolve = Some p\<rparr>"
  using assms by (simp_all add: addMessage_def Let_def AList.update_conv')

lemma addMessage_pending_flush:
  assumes "map_of (buffers svc) k = Some b" "resolve b = Some q" "q \<noteq> p"
    and "min (waitTimeMs (bufferConfig svc))
             (maxWaitTimeMs (bufferConfig svc) - (now - firstMessageTime b)) \<le> 0"
  shows "fst (addMessage now k m c p svc)
           = [(q, Superseded),
              (p, Combined (joinWith (separator (bufferConfig svc)) (messages b @ [trim m]))
                    (length (messages b) + 1) c)]"
    and "map_of (buffers (snd (addMessage now k m c p svc))) k = None"
  using assms
  by (simp_all add: addMessage_def processBuffer_def Let_def AList.update_conv'
        AList.delete_conv')

lemma flushedInTime_append:
  "flushedInTime cfg pre e \<Longrightarrow> flushedInTime cfg (pre @ ext) e"
  by (cases e) (auto simp add: flushedInTime_def nth_append split: resolution.splits)

lemma fireDue_step:
  assumes inv: "\<forall>b. map_of (buffers svc) k = Some b \<longrightarrow> pendingInv (bufferConfig svc) pre b"
  shows "(\<forall>e \<in> set (fst (fireDue t k svc)). flushedInTime (bufferConfig svc) pre e)
     \<and> bufferConfig (snd (fireDue t k svc)) = bufferConfig svc
     \<and> (\<forall>b. map_of (buffers (snd (fireDue t k svc))) k = Some b \<longrightarrow>
            pendingInv (bufferConfig svc) pre b \<and> (\<exists>d. timeout b = Some d \<and> t < d))"
proof (cases "map_of (buffers svc) k")
  case None
  then show ?thesis by (simp add: fireDue_none)
next
  case (Some b)
  with inv have pi: "pendingInv (bufferConfig svc) pre b" by simp
  then obtain d where d: "timeout b = Some d"
    and dle: "d \<le> firstMessageTime b + maxWaitTimeMs (bufferConfig svc)"
    by (auto simp add: pendingInv_def split: option.splits)
  from pi have r: "resolve b = Some (length pre - 1)" and ne: "messages b \<noteq> []"
    and le: "length (messages b) \<le> length pre"
    and f: "firstMessageTime b = fst (pre ! (length pre - length (messages b)))"
    by (simp_all add: pendingInv_def)
  show ?thesis
  proof (cases "d \<le> t")
    case True
    from ne have n1: "1 \<le> length (messages b)" by (cases "messages b") simp_all
    from n1 le have a1: "length (messages b) \<le> Suc (length pre - Suc 0)"
      and a2: "length pre - Suc 0 < length pre"
      and a3: "Suc (length pre - Suc 0) - length (messages b) = length pre - length (messages b)"
      by arith+
    from fireDue_fires [OF Some d True r] n1 f dle a1 a2 a3 show ?thesis
      by (simp add: flushedInTime_def)
  next
    case False
    then have "t < d" by simp
    from fireDue_later [OF Some d this] Some pi d \<open>t < d\<close> show ?thesis by simp
  qed
qed

lemma addMessage_step:
  assumes M: "0 \<le> maxWaitTimeMs (bufferConfig svc)"
    and inv: "\<forall>b. map_of (buffers svc) k = Some b \<longrightarrow>
                pendingInv (bufferConfig svc) pre b \<and> (\<exists>d. timeout b = Some d \<and> t < d)"
  shows "(\<forall>e \<in> set (fst (addMessage t k m c (length pre) svc)).
            flushedInTime (bufferConfig svc) (pre @ [(t, m, c)]) (t, e))
     \<and> (\<forall>b. map_of (buffers (snd (addMessage t k m c (length pre) svc))) k = Some b \<longrightarrow>
            pendingInv (bufferConfig svc) (pre @ [(t, m, c)]) b)"
proof (cases "map_of (buffers svc) k")
  case None
  show ?thesis
  proof (cases "min (waitTimeMs (bufferConfig svc)) (maxWaitTimeMs (bufferConfig svc)) \<le> 0")
    case True
    from addMessage_fresh_flush [OF None True, of t m c "length pre"] M show ?thesis
      by (simp add: flushedInTime_def)
  next
    case False
    from addMessage_fresh_wait [OF None False, of t m c "length pre"] show ?thesis
      by (simp add: flushedInTime_def pendingInv_def)
  qed
next
  case (Some b)
  with inv have pi: "pendingInv (bufferConfig svc) pre b"
    and ex: "\<exists>d. timeout b = Some d \<and> t < d" by simp_all
  from ex obtain d where d: "timeout b = Some d" and td: "t < d" by blast
  from pi d have dle: "d \<le> firstMessageTime b + maxWaitTimeMs (bufferConfig svc)"
    by (simp add: pendingInv_def)
  from pi have r: "resolve b = Some (length pre - 1)" and ne: "messages b \<noteq> []"
    and le: "length (messages b) \<le> length pre"
    and f: "firstMessageTime b = fst (pre ! (length pre - length (messages b)))"
    by (simp_all add: pendingInv_def)
  from ne have n1: "1 \<le> length (messages b)" by (cases "messages b") simp_all
  with le have p1: "1 \<le> length pre" by simp
  then have qp: "length pre - 1 \<noteq> length pre" by simp
  have idx: "(pre @ [(t, m, c)]) ! (length pre - length (messages b))
               = pre ! (length pre - length (messages b))"
  proof -
    from n1 p1 have "length pre - length (messages b) < length pre" by arith
    then show ?thesis by (simp add: nth_append)
  qed
  show ?thesis
  proof (cases "min (waitTimeMs (bufferConfig svc))
             (maxWaitTimeMs (bufferConfig svc) - (t - firstMessageTime b)) \<le> 0")
    case True
    from addMessage_pending_flush [OF Some r qp True, of m c] td dle le f idx show ?thesis
      by (simp add: flushedInTime_def)
  next
    case False
    from addMessage_pending_wait [OF Some r qp False, of m c] le f idx show ?thesis
      by (auto simp add: flushedInTime_def pendingInv_def Suc_diff_le)
  qed
qed

lemma submitAll_inv:
  assumes "0 \<le> maxWaitTimeMs (bufferConfig svc)"
    and "\<forall>b. map_of (buffers svc) k = Some b \<longrightarrow> pendingInv (bufferConfig svc) pre b"
  shows "(\<forall>e \<in> set (fst (submitAll k (length pre) arr svc)).
            flushedInTime (bufferConfig svc) (pre @ arr) e)
     \<and> bufferConfig (snd (submitAll k (length pre) arr svc)) = bufferConfig svc
     \<and> (\<forall>b. map_of (buffers (snd (submitAll k (length pre) arr svc))) k = Some b \<longrightarrow>
            pendingInv (bufferConfig svc) (pre @ arr) b)"
  using assms
proof (induction arr arbitrary: pre svc)
  case Nil
  then show ?case by simp
next
  case (Cons x rest)
  obtain t m c where x: "x = (t, m, c)" by (cases x) auto
  obtain fired svc1 where fd: "fireDue t k svc = (fired, svc1)" by fastforce
  obtain settled svc2 where am: "addMessage t k m c (length pre) svc1 = (settled, svc2)"
    by fastforce
  obtain later svc3 where sa: "submitAll k (Suc (length pre)) rest svc2 = (later, svc3)"
    by fastforce
  have unf: "submitAll k (length pre) (x # rest) svc
               = (fired @ map (Pair t) settled @ later, svc3)"
    by (simp add: x fd am sa)
  from fireDue_step [OF Cons.prems(2), of t] fd
  have f1: "\<forall>e \<in> set fired. flushedInTime (bufferConfig svc) pre e"
    and c1: "bufferConfig svc1 = bufferConfig svc"
    and i1: "\<forall>b. map_of (buffers svc1) k = Some b \<longrightarrow>
               pendingInv (bufferConfig svc1) pre b \<and> (\<exists>d. timeout b = Some d \<and> t < d)"
    by simp_all
  have M1: "0 \<le> maxWaitTimeMs (bufferConfig svc1)" using Cons.prems(1) c1 by simp
  from addMessage_step [OF M1 i1, of m c] am
  have f2: "\<forall>e \<in> set settled. flushedInTime (bufferConfig svc) (pre @ [x]) (t, e)"
    and i2: "\<forall>b. map_of (buffers svc2) k = Some b \<longrightarrow>
               pendingInv (bufferConfig svc2) (pre @ [x]) b"
    and c2: "bufferConfig svc2 = bufferConfig svc"
    using addMessage_config [of t k m c "length pre" svc1] by (simp_all add: c1 x)
  have M2: "0 \<le> maxWaitTimeMs (bufferConfig svc2)" using Cons.prems(1) c2 by simp
  from Cons.IH [OF M2 i2] sa
  have f3: "\<forall>e \<in> set later. flushedInTime (bufferConfig svc) ((pre @ [x]) @ rest) e"
    and c3: "bufferConfig svc3 = bufferConfig svc"
    and i3: "\<forall>b. map_of (buffers svc3) k = Some b \<longrightarrow>
               pendingInv (bufferConfig svc) ((pre @ [x]) @ rest) b"
    by (simp_all add: c2)
  have g1: "\<forall>e \<in> set fired. flushedInTime (bufferConfig svc) (pre @ x # rest) e"
    using f1 by (simp add: flushedInTime_append)
  have g2: "\<forall>e \<in> set (map (Pair t) settled). flushedInTime (bufferConfig svc) (pre @ x # rest) e"
    using f2 flushedInTime_append [of "bufferConfig svc" "pre @ [x]" _ rest] by auto
  show ?case unfolding unf using g1 g2 f3 c3 i3 by auto
qed

lemma submitAll_chain:
  assumes "0 < waitTimeMs (bufferConfig svc)"
    and "map_of (buffers svc) k = Some b" "resolve b = Some q" "timeout b = Some d"
    and "d \<le> firstMessageTime b + maxWaitTimeMs (bufferConfig svc)"
    and "arr \<noteq> [] \<longrightarrow> fst (arr ! 0) < d"
    and "\<forall>i. Suc i < length arr \<longrightarrow>
           fst (arr ! Suc i) < fst (arr ! i) + waitTimeMs (bufferConfig svc)"
    and "\<forall>i < length arr.
           fst (arr ! i) < firstMessageTime b + maxWaitTimeMs (bufferConfig svc)"
  shows "fst (submitAll k (Suc q) arr svc)
           = map (\<lambda>(i, t, m, c). (t, i, Superseded)) (enumerate q arr)
     \<and> bufferConfig (snd (submitAll k (Suc q) arr svc)) = bufferConfig svc
     \<and> map_of (buffers (snd (submitAll k (Suc q) arr svc))) k
         = Some \<lparr>messages = messages b @ map (\<lambda>(t, m, c). trim m) arr,
                 firstMessageTime = firstMessageTime b,
                 lastContext = (if arr = [] then lastContext b else snd (snd (last arr))),
                 timeout = Some (if arr = [] then d
                                 else min (fst (last arr) + waitTimeMs (bufferConfig svc))
                                        (firstMessageTime b + maxWaitTimeMs (bufferConfig svc))),
                 resolve = Some (q + length arr)\<rparr>"
  using assms
proof (induction arr arbitrary: svc b q d)
  case Nil
  then show ?case by simp
next
  case (Cons x rest)
  obtain t m c where x: "x = (t, m, c)" by (cases x) auto
  let ?W = "waitTimeMs (bufferConfig svc)"
  let ?M = "maxWaitTimeMs (bufferConfig svc)"
  let ?f = "firstMessageTime b"
  from Cons.prems(6) x have td: "t < d" by simp
  from Cons.prems(8) x have tM: "t < ?f + ?M" by auto
  have nofire: "fireDue t k svc = ([], svc)"
    by (rule fireDue_later [OF Cons.prems(2) Cons.prems(4) td])
  have w: "\<not> min ?W (?M - (t - ?f)) \<le> 0" using Cons.prems(1) tM by simp
  have qq: "q \<noteq> Suc q" by simp
  let ?b' = "\<lparr>messages = messages b @ [trim m], firstMessageTime = ?f, lastContext = c,
              timeout = Some (t + min ?W (?M - (t - ?f))), resolve = Some (Suc q)\<rparr>"
  obtain settled svc2 where am: "addMessage t k m c (Suc q) svc = (settled, svc2)"
    by fastforce
  from addMessage_pending_wait [OF Cons.prems(2) Cons.prems(3) qq w, of m c] am
  have s: "settled = [(q, Superseded)]" and b2: "map_of (buffers svc2) k = Some ?b'"
    by simp_all
  have c2: "bufferConfig svc2 = bufferConfig svc"
    using addMessage_config [of t k m c "Suc q" svc] am by simp
  have dd: "t + min ?W (?M - (t - ?f)) = min (t + ?W) (?f + ?M)" by simp
  have p1: "0 < waitTimeMs (bufferConfig svc2)" using Cons.prems(1) c2 by simp
  have p3: "resolve ?b' = Some (Suc q)" by simp
  have p4: "timeout ?b' = Some (t + min ?W (?M - (t - ?f)))" by simp
  have p5: "t + min ?W (?M - (t - ?f)) \<le> firstMessageTime ?b' + maxWaitTimeMs (bufferConfig svc2)"
    by (simp add: c2)
  have p6: "rest \<noteq> [] \<longrightarrow> fst (rest ! 0) < t + min ?W (?M - (t - ?f))"
  proof
    assume ne: "rest \<noteq> []"
    then have "Suc 0 < length (x # rest)" by simp
    with Cons.prems(7) have "fst ((x # rest) ! Suc 0) < fst ((x # rest) ! 0) + ?W" by blast
    then have g: "fst (rest ! 0) < t + ?W" by (simp add: x)
    from ne have "Suc 0 < length (x # rest)" by simp
    with Cons.prems(8) have "fst ((x # rest) ! Suc 0) < ?f + ?M" by blast
    then have h: "fst (rest ! 0) < ?f + ?M" by simp
    from g h show "fst (rest ! 0) < t + min ?W (?M - (t - ?f))" by simp
  qed
  have p7: "\<forall>i. Suc i < length rest \<longrightarrow>
              fst (rest ! Suc i) < fst (rest ! i) + waitTimeMs (bufferConfig svc2)"
  proof (intro allI impI)
    fix i assume "Suc i < length rest"
    then have "Suc (Suc i) < length (x # rest)" by simp
    with Cons.prems(7) have "fst ((x # rest) ! Suc (Suc i)) < fst ((x # rest) ! Suc i) + ?W"
      by blast
    then show "fst (rest ! Suc i) < fst (rest ! i) + waitTimeMs (bufferConfig svc2)"
      by (simp add: c2)
  qed
  have p8: "\<forall>i < length rest.
              fst (rest ! i) < firstMessageTime ?b' + maxWaitTimeMs (bufferConfig svc2)"
  proof (intro allI impI)
    fix i assume "i < length rest"
    then have "Suc i < length (x # rest)" by simp
    with Cons.prems(8) have "fst ((x # rest) ! Suc i) < ?f + ?M" by blast
    then show "fst (rest ! i) < firstMessageTime ?b' + maxWaitTimeMs (bufferConfig svc2)"
      by (simp add: c2)
  qed
  note IH = Cons.IH [OF p1 b2 p3 p4 p5 p6 p7 p8]
  have unf: "submitAll k (Suc q) (x # rest) svc
      = (map (Pair t) settled @ fst (submitAll k (Suc (Suc q)) rest svc2),
         snd (submitAll k (Suc (Suc q)) rest svc2))"
    by (simp add: x nofire am split_beta)
  show ?case
  proof (cases "rest = []")
    case True
    then show ?thesis unfolding unf using s b2 c2 dd by (simp add: x enumerate_simps)
  next
    case False
    then show ?thesis unfolding unf using IH s c2 dd
      by (simp add: x enumerate_simps)
  qed
qed

lemma fireLast_fires:
  assumes "map_of (buffers svc) k = Some b" "timeout b = Some d" "resolve b = Some q"
  shows "fst (fireLast k svc)
           = [(d, q, Combined (joinWith (separator (bufferConfig svc)) (messages b))
                       (length (messages b)) (lastContext b))]"
    and "map_of (buffers (snd (fireLast k svc))) k = None"
  using fireDue_fires [OF assms(1) assms(2) order_refl assms(3)] assms
  by (simp_all add: fireLast_def)

lemma fireLast_none:
  assumes "map_of (buffers svc) k = None"
  shows "fireLast k svc = ([], svc)"
  using assms by (simp add: fireLast_def)

lemma runKey_close:
  assumes ne: "arr \<noteq> []" and none: "map_of (buffers svc) k = None"
    and W: "0 < waitTimeMs (bufferConfig svc)" and M: "0 < maxWaitTimeMs (bufferConfig svc)"
    and gaps: "\<forall>i. Suc i < length arr \<longrightarrow>
           fst (arr ! Suc i) < fst (arr ! i) + waitTimeMs (bufferConfig svc)
         \<and> fst (arr ! Suc i) < fst (arr ! 0) + maxWaitTimeMs (bufferConfig svc)"
  shows "fst (runKey k arr svc)
           = map (\<lambda>(i, t, m, c). (t, i, Superseded)) (enumerate 0 (tl arr))
             @ [(min (fst (last arr) + waitTimeMs (bufferConfig svc))
                     (fst (arr ! 0) + maxWaitTimeMs (bufferConfig svc)),
                 length arr - 1,
                 Combined (joinWith (separator (bufferConfig svc))
                             (map (\<lambda>(t, m, c). trim m) arr))
                   (length arr) (snd (snd (last arr))))]
     \<and> map_of (buffers (snd (runKey k arr svc))) k = None"
proof -
  from ne obtain x rest where arr: "arr = x # rest" by (cases arr) auto
  obtain t0 m0 c0 where x: "x = (t0, m0, c0)" by (cases x) auto
  let ?W = "waitTimeMs (bufferConfig svc)"
  let ?M = "maxWaitTimeMs (bufferConfig svc)"
  let ?b0 = "\<lparr>messages = [trim m0], firstMessageTime = t0, lastContext = c0,
              timeout = Some (t0 + min ?W ?M), resolve = Some 0\<rparr>"
  have nofire: "fireDue t0 k svc = ([], svc)" by (rule fireDue_none [OF none])
  have w: "\<not> min ?W ?M \<le> 0" using W M by simp
  obtain settled svc2 where am: "addMessage t0 k m0 c0 0 svc = (settled, svc2)" by fastforce
  from addMessage_fresh_wait [OF none w, of t0 m0 c0 0] am
  have s: "settled = []" and b2: "map_of (buffers svc2) k = Some ?b0" by simp_all
  have c2: "bufferConfig svc2 = bufferConfig svc"
    using addMessage_config [of t0 k m0 c0 0 svc] am by simp
  have p1: "0 < waitTimeMs (bufferConfig svc2)" using W c2 by simp
  have p3: "resolve ?b0 = Some 0" by simp
  have p4: "timeout ?b0 = Some (t0 + min ?W ?M)" by simp
  have p5: "t0 + min ?W ?M \<le> firstMessageTime ?b0 + maxWaitTimeMs (bufferConfig svc2)"
    by (simp add: c2)
  have g: "fst (rest ! i) < fst ((x # rest) ! i) + ?W \<and> fst (rest ! i) < t0 + ?M"
    if "i < length rest" for i
  proof -
    from that have "Suc i < length arr" by (simp add: arr)
    with gaps have "fst (arr ! Suc i) < fst (arr ! i) + ?W \<and> fst (arr ! Suc i) < fst (arr ! 0) + ?M"
      by blast
    then show ?thesis by (simp add: arr x)
  qed
  have p6: "rest \<noteq> [] \<longrightarrow> fst (rest ! 0) < t0 + min ?W ?M"
  proof
    assume "rest \<noteq> []"
    then have "0 < length rest" by simp
    from g [OF this] show "fst (rest ! 0) < t0 + min ?W ?M" by (auto simp add: x min_def)
  qed
  have p7: "\<forall>i. Suc i < length rest \<longrightarrow>
              fst (rest ! Suc i) < fst (rest ! i) + waitTimeMs (bufferConfig svc2)"
  proof (intro allI impI)
    fix i assume "Suc i < length rest"
    from g [OF this] show "fst (rest ! Suc i) < fst (rest ! i) + waitTimeMs (bufferConfig svc2)"
      by (simp add: c2)
  qed
  have p8: "\<forall>i < length rest.
              fst (rest ! i) < firstMessageTime ?b0 + maxWaitTimeMs (bufferConfig svc2)"
    using g by (simp add: c2)
  note C = submitAll_chain [OF p1 b2 p3 p4 p5 p6 p7 p8]
  obtain later svc3 where sa: "submitAll k (Suc 0) rest svc2 = (later, svc3)" by fastforce
  let ?bf = "\<lparr>messages = messages ?b0 @ map (\<lambda>(t, m, c). trim m) rest,
              firstMessageTime = firstMessageTime ?b0,
              lastContext = (if rest = [] then lastContext ?b0 else snd (snd (last rest))),
              timeout = Some (if rest = [] then t0 + min ?W ?M
                              else min (fst (last rest) + waitTimeMs (bufferConfig svc2))
                                     (firstMessageTime ?b0 + maxWaitTimeMs (bufferConfig svc2))),
              resolve = Some (0 + length rest)\<rparr>"
  from C sa have l: "later = map (\<lambda>(i, t, m, c). (t, i, Superseded)) (enumerate 0 rest)"
    and c3: "bufferConfig svc3 = bufferConfig svc"
    and b3: "map_of (buffers svc3) k = Some ?bf"
    by (simp_all add: c2)
  have run: "submitAll k 0 arr svc = (later, svc3)"
    by (simp add: arr x nofire am s sa)
  have tf: "timeout ?bf = Some (min (fst (last arr) + ?W) (t0 + ?M))"
    by (auto simp add: arr x c2 min_def)
  have rf: "resolve ?bf = Some (length rest)" by simp
  from fireLast_fires [OF b3 tf rf]
  have fl: "fst (fireLast k svc3)
      = [(min (fst (last arr) + ?W) (t0 + ?M), length rest,
          Combined (joinWith (separator (bufferConfig svc3)) (messages ?bf))
            (length (messages ?bf)) (lastContext ?bf))]"
    and gone: "map_of (buffers (snd (fireLast k svc3))) k = None"
    by simp_all
  have msgs: "messages ?bf = map (\<lambda>(t, m, c). trim m) arr" by (simp add: arr x)
  have ctx: "lastContext ?bf = snd (snd (last arr))" by (simp add: arr x)
  show ?thesis
    unfolding runKey_def run
    using fl gone l msgs ctx c3
    by (simp add: split_beta arr x)
qed

text \<open>
  Claim C3, as stated, fails: fragments that each arrive less than the wait window
  (2500 ms) after the previous one, but go on past the ceiling (10000 ms) counted from
  the first, are cut by the ceiling.  Seven fragments at 0, 2000, 4000, 6000, 8000,
  9900 and 10500 ms: the timer set at 9900 ms is due at 10000 ms, so promise 5 gets
  the first six fragments and promise 6 gets the seventh alone.  Two promises carry
  a combined text and none carries all seven fragments.
\<close>

theorem combined_turn_counterexample:
  "list_all (\<lambda>(a, b). b - a < waitTimeMs (bufferConfig initialBuffers))
     (zip [0, 2000, 4000, 6000, 8000, 9900] [2000, 4000, 6000, 8000, 9900, 10500])
   \<and> fst (runKey ''56911112222''
        [(0, ''a'', None), (2000, ''b'', None), (4000, ''c'', None), (6000, ''d'', None),
         (8000, ''e'', None), (9900, ''f'', None), (10500, ''g'', None)] initialBuffers)
     = [(2000, 0, Superseded), (4000, 1, Superseded), (6000, 2, Superseded),
        (8000, 3, Superseded), (9900, 4, Superseded),
        (10000, 5, Combined ''a b c d e f'' 6 None),
        (13000, 6, Combined ''g'' 1 None)]"
  by (simp add: initialBuffers_def runKey_def fireDue_def fireLast_def addMessage_def
      processBuffer_def Let_def trim_def isSpace_def AList.delete_eq)

text \<open>
  Claim C3, amended.  The key has no pending buffer, the wait window and the ceiling
  are positive, and each fragment after the first arrives less than the wait window
  after the previous one and less than the ceiling after the first one.  Then every
  promise but the last is settled with \<^verbatim>\<open>null\<close>, at the instant the next fragment
  arrives, and the last promise is settled with the combined turn: the trimmed
  fragments in arrival order, joined with the separator, their number, and the last
  context.  It is settled when its timer is due, at the earlier of the last arrival
  plus the wait window and the first arrival plus the ceiling; no other settlement
  happens and no buffer is left.
\<close>

theorem close_fragments_combined:
  "arr \<noteq> [] \<and> map_of (buffers svc) k = None
   \<and> 0 < waitTimeMs (bufferConfig svc) \<and> 0 < maxWaitTimeMs (bufferConfig svc)
   \<and> (\<forall>i. Suc i < length arr \<longrightarrow>
           fst (arr ! Suc i) < fst (arr ! i) + waitTimeMs (bufferConfig svc)
         \<and> fst (arr ! Suc i) < fst (arr ! 0) + maxWaitTimeMs (bufferConfig svc))
   \<longrightarrow>
     fst (runKey k arr svc)
       = map (\<lambda>(i, t, m, c). (t, i, Superseded)) (enumerate 0 (tl arr))
         @ [(min (fst (last arr) + waitTimeMs (bufferConfig svc))
                 (fst (arr ! 0) + maxWaitTimeMs (bufferConfig svc)),
             length arr - 1,
             Combined (joinWith (separator (bufferConfig svc))
                         (map (\<lambda>(t, m, c). trim m) arr))
               (length arr) (snd (snd (last arr))))]
   \<and> map_of (buffers (snd (runKey k arr svc))) k = None"
proof
  assume a: "arr \<noteq> [] \<and> map_of (buffers svc) k = None
   \<and> 0 < waitTimeMs (bufferConfig svc) \<and> 0 < maxWaitTimeMs (bufferConfig svc)
   \<and> (\<forall>i. Suc i < length arr \<longrightarrow>
           fst (arr ! Suc i) < fst (arr ! i) + waitTimeMs (bufferConfig svc)
         \<and> fst (arr ! Suc i) < fst (arr ! 0) + maxWaitTimeMs (bufferConfig svc))"
  then have 1: "arr \<noteq> []" and 2: "map_of (buffers svc) k = None"
    and 3: "0 < waitTimeMs (bufferConfig svc)" and 4: "0 < maxWaitTimeMs (bufferConfig svc)"
    and 5: "\<forall>i. Suc i < length arr \<longrightarrow>
           fst (arr ! Suc i) < fst (arr ! i) + waitTimeMs (bufferConfig svc)
         \<and> fst (arr ! Suc i) < fst (arr ! 0) + maxWaitTimeMs (bufferConfig svc)"
    by blast+
  show "fst (runKey k arr svc)
       = map (\<lambda>(i, t, m, c). (t, i, Superseded)) (enumerate 0 (tl arr))
         @ [(min (fst (last arr) + waitTimeMs (bufferConfig svc))
                 (fst (arr ! 0) + maxWaitTimeMs (bufferConfig svc)),
             length arr - 1,
             Combined (joinWith (separator (bufferConfig svc))
                         (map (\<lambda>(t, m, c). trim m) arr))
               (length arr) (snd (snd (last arr))))]
   \<and> map_of (buffers (snd (runKey k arr svc))) k = None"
    by (rule runKey_close [OF 1 2 3 4 5])
qed

theorem close_fragments_combined_witness:
  "[(0, ''Hola'', None), (500, ''quiero'', None), (1000, ''comprar'', None)] \<noteq> []
   \<and> map_of (buffers initialBuffers) ''56911112222'' = None
   \<and> 0 < waitTimeMs (bufferConfig initialBuffers)
   \<and> 0 < maxWaitTimeMs (bufferConfig initialBuffers)
   \<and> fst (runKey ''56911112222''
        [(0, ''Hola'', None), (500, ''quiero'', None), (1000, ''comprar'', None)]
        initialBuffers)
     = [(500, 0, Superseded), (1000, 1, Superseded),
        (3500, 2, Combined ''Hola quiero comprar'' 3 None)]
   \<and> map_of (buffers (snd (runKey ''56911112222''
        [(0, ''Hola'', None), (500, ''quiero'', None), (1000, ''comprar'', None)]
        initialBuffers))) ''56911112222'' = None"
proof -
  let ?arr = "[(0::int, ''Hola'', None::string option), (500, ''quiero'', None),
               (1000, ''comprar'', None)]"
  have 1: "?arr \<noteq> []" by simp
  have 2: "map_of (buffers initialBuffers) ''56911112222'' = None"
    by (simp add: initialBuffers_def)
  have 3: "0 < waitTimeMs (bufferConfig initialBuffers)" by (simp add: initialBuffers_def)
  have 4: "0 < maxWaitTimeMs (bufferConfig initialBuffers)" by (simp add: initialBuffers_def)
  have 5: "\<forall>i. Suc i < length ?arr \<longrightarrow>
           fst (?arr ! Suc i) < fst (?arr ! i) + waitTimeMs (bufferConfig initialBuffers)
         \<and> fst (?arr ! Suc i) < fst (?arr ! 0) + maxWaitTimeMs (bufferConfig initialBuffers)"
    by (auto simp add: initialBuffers_def nth_Cons split: nat.splits)
  have r: "fst (runKey ''56911112222'' ?arr initialBuffers)
       = map (\<lambda>(i, t, m, c). (t, i, Superseded)) (enumerate 0 (tl ?arr))
         @ [(min (fst (last ?arr) + waitTimeMs (bufferConfig initialBuffers))
                 (fst (?arr ! 0) + maxWaitTimeMs (bufferConfig initialBuffers)),
             length ?arr - 1,
             Combined (joinWith (separator (bufferConfig initialBuffers))
                         (map (\<lambda>(t, m, c). trim m) ?arr))
               (length ?arr) (snd (snd (last ?arr))))]
   \<and> map_of (buffers (snd (runKey ''56911112222'' ?arr initialBuffers))) ''56911112222'' = None"
    using close_fragments_combined [where arr = ?arr and svc = initialBuffers
        and k = "''56911112222''"] 1 2 3 4 5
    by blast
  have e: "map (\<lambda>(i, t, m, c). (t, i, Superseded)) (enumerate 0 (tl ?arr))
         @ [(min (fst (last ?arr) + waitTimeMs (bufferConfig initialBuffers))
                 (fst (?arr ! 0) + maxWaitTimeMs (bufferConfig initialBuffers)),
             length ?arr - 1,
             Combined (joinWith (separator (bufferConfig initialBuffers))
                         (map (\<lambda>(t, m, c). trim m) ?arr))
               (length ?arr) (snd (snd (last ?arr))))]
     = [(500, 0, Superseded), (1000, 1, Superseded),
        (3500, 2, Combined ''Hola quiero comprar'' 3 None)]"
    by (simp add: enumerate_simps initialBuffers_def trim_def isSpace_def)
  from r e 1 2 3 4 show ?thesis by simp
qed

lemma addMessage_capped:
  assumes "map_of (buffers (snd (addMessage now k m c p svc))) k = Some b"
  shows "\<exists>d. timeout b = Some d \<and> now < d \<and> d \<le> now + waitTimeMs (bufferConfig svc)
           \<and> d \<le> firstMessageTime b + maxWaitTimeMs (bufferConfig svc)"
  using assms
  by (auto simp add: addMessage_def processBuffer_def Let_def AList.update_conv'
        AList.delete_conv' split: option.splits if_splits)

lemma addMessage_past_ceiling:
  assumes "map_of (buffers svc) k = Some b"
    and "firstMessageTime b + maxWaitTimeMs (bufferConfig svc) \<le> now"
  shows "map_of (buffers (snd (addMessage now k m c p svc))) k = None"
    and "(p, Combined (joinWith (separator (bufferConfig svc)) (messages b @ [trim m]))
               (length (messages b) + 1) c) \<in> set (fst (addMessage now k m c p svc))"
  using assms
  by (auto simp add: addMessage_def processBuffer_def Let_def AList.update_conv'
        AList.delete_conv' split: option.splits if_splits)

lemma runKey_in_time:
  assumes M: "0 \<le> maxWaitTimeMs (bufferConfig svc)" and none: "map_of (buffers svc) k = None"
  shows "(\<forall>e \<in> set (fst (runKey k arr svc)). flushedInTime (bufferConfig svc) arr e)
     \<and> map_of (buffers (snd (runKey k arr svc))) k = None"
proof -
  have i0: "\<forall>b. map_of (buffers svc) k = Some b \<longrightarrow> pendingInv (bufferConfig svc) [] b"
    using none by simp
  obtain settled svc1 where sa: "submitAll k 0 arr svc = (settled, svc1)" by fastforce
  from submitAll_inv [OF M i0, of arr] sa
  have f1: "\<forall>e \<in> set settled. flushedInTime (bufferConfig svc) arr e"
    and c1: "bufferConfig svc1 = bufferConfig svc"
    and i1: "\<forall>b. map_of (buffers svc1) k = Some b \<longrightarrow> pendingInv (bufferConfig svc) arr b"
    by simp_all
  have "(\<forall>e \<in> set (fst (fireLast k svc1)). flushedInTime (bufferConfig svc) arr e)
      \<and> map_of (buffers (snd (fireLast k svc1))) k = None"
  proof (cases "map_of (buffers svc1) k")
    case None
    then show ?thesis by (simp add: fireLast_none)
  next
    case (Some b)
    with i1 have pi: "pendingInv (bufferConfig svc1) arr b" by (simp add: c1)
    then obtain d where d: "timeout b = Some d"
      by (auto simp add: pendingInv_def split: option.splits)
    have i1': "\<forall>b. map_of (buffers svc1) k = Some b \<longrightarrow> pendingInv (bufferConfig svc1) arr b"
      using i1 c1 by simp
    have fl: "fireLast k svc1 = fireDue d k svc1" using Some d by (simp add: fireLast_def)
    from pi have r: "resolve b = Some (length arr - 1)" by (simp add: pendingInv_def)
    from fireDue_step [OF i1', of d] fireDue_fires(2) [OF Some d order_refl r]
    show ?thesis by (simp add: fl c1)
  qed
  then show ?thesis unfolding runKey_def using f1 sa by (auto simp add: split_beta)
qed

text \<open>
  Claim C4.  Whatever the state and the clock reading, a buffer that \<^verbatim>\<open>addMessage\<close>
  leaves pending has a timer that is due after now, no later than the wait window
  from now and no later than the ceiling counted from the buffer's first fragment.
  A submission for a pending buffer at or past that ceiling leaves no timer: the
  buffer is flushed within the call and the caller's promise gets the combined turn.
  Over a whole run of one key that starts without a buffer, with arrivals at any
  instants and a ceiling that is not negative: every settlement with a combined turn
  of \<open>n\<close> fragments for promise \<open>q\<close> happens no later than the ceiling after the
  arrival of the first of these fragments (arrival \<open>q + 1 - n\<close>), and when the last
  timer has run no buffer is left.
\<close>

theorem ceiling_forces_flush:
  "(map_of (buffers (snd (addMessage now k m c p svc))) k = Some b \<longrightarrow>
      (\<exists>d. timeout b = Some d \<and> now < d \<and> d \<le> now + waitTimeMs (bufferConfig svc)
           \<and> d \<le> firstMessageTime b + maxWaitTimeMs (bufferConfig svc)))
   \<and> (map_of (buffers svb) kb = Some bb
        \<and> firstMessageTime bb + maxWaitTimeMs (bufferConfig svb) \<le> nowb \<longrightarrow>
        map_of (buffers (snd (addMessage nowb kb mb cb pb svb))) kb = None
      \<and> (pb, Combined (joinWith (separator (bufferConfig svb)) (messages bb @ [trim mb]))
                 (length (messages bb) + 1) cb) \<in> set (fst (addMessage nowb kb mb cb pb svb)))
   \<and> (0 \<le> maxWaitTimeMs (bufferConfig svr) \<and> map_of (buffers svr) kr = None \<longrightarrow>
        (\<forall>t q txt n ctx.
            (t, q, Combined txt n ctx) \<in> set (fst (runKey kr arr svr)) \<longrightarrow>
            1 \<le> n \<and> n \<le> q + 1 \<and> q < length arr
            \<and> t \<le> fst (arr ! (q + 1 - n)) + maxWaitTimeMs (bufferConfig svr))
      \<and> map_of (buffers (snd (runKey kr arr svr))) kr = None)"
proof (intro conjI impI allI)
  assume "map_of (buffers (snd (addMessage now k m c p svc))) k = Some b"
  then show "\<exists>d. timeout b = Some d \<and> now < d \<and> d \<le> now + waitTimeMs (bufferConfig svc)
           \<and> d \<le> firstMessageTime b + maxWaitTimeMs (bufferConfig svc)"
    by (rule addMessage_capped)
next
  assume a: "map_of (buffers svb) kb = Some bb
        \<and> firstMessageTime bb + maxWaitTimeMs (bufferConfig svb) \<le> nowb"
  then have x: "map_of (buffers svb) kb = Some bb"
    and y: "firstMessageTime bb + maxWaitTimeMs (bufferConfig svb) \<le> nowb"
    by simp_all
  show "map_of (buffers (snd (addMessage nowb kb mb cb pb svb))) kb = None"
    by (rule addMessage_past_ceiling(1) [OF x y])
  show "(pb, Combined (joinWith (separator (bufferConfig svb)) (messages bb @ [trim mb]))
                 (length (messages bb) + 1) cb) \<in> set (fst (addMessage nowb kb mb cb pb svb))"
    by (rule addMessage_past_ceiling(2) [OF x y])
next
  assume a: "0 \<le> maxWaitTimeMs (bufferConfig svr) \<and> map_of (buffers svr) kr = None"
  then have M: "0 \<le> maxWaitTimeMs (bufferConfig svr)"
    and none: "map_of (buffers svr) kr = None" by simp_all
  have R: "(\<forall>e \<in> set (fst (runKey kr arr svr)). flushedInTime (bufferConfig svr) arr e)
     \<and> map_of (buffers (snd (runKey kr arr svr))) kr = None"
    by (rule runKey_in_time [OF M none])
  then show "map_of (buffers (snd (runKey kr arr svr))) kr = None" by simp
  fix t q body n ctx
  assume "(t, q, Combined body n ctx) \<in> set (fst (runKey kr arr svr))"
  with R have F: "flushedInTime (bufferConfig svr) arr (t, q, Combined body n ctx)" by blast
  from F show "1 \<le> n" by (simp add: flushedInTime_def)
  from F show "n \<le> q + 1" by (simp add: flushedInTime_def)
  from F show "q < length arr" by (simp add: flushedInTime_def)
  from F show "t \<le> fst (arr ! (q + 1 - n)) + maxWaitTimeMs (bufferConfig svr)"
    by (simp add: flushedInTime_def)
qed

theorem ceiling_forces_flush_witness:
  "map_of (buffers (snd (addMessage 0 ''56911112222'' ''Hola'' None 0 initialBuffers)))
       ''56911112222''
     = Some \<lparr>messages = [''Hola''], firstMessageTime = 0, lastContext = None,
             timeout = Some 2500, resolve = Some 0\<rparr>
   \<and> firstMessageTime \<lparr>messages = [''Hola''], firstMessageTime = 0, lastContext = None,
                        timeout = Some 2500, resolve = Some 0\<rparr>
       + maxWaitTimeMs (bufferConfig
           (snd (addMessage 0 ''56911112222'' ''Hola'' None 0 initialBuffers))) \<le> 10000
   \<and> map_of (buffers (snd (addMessage 10000 ''56911112222'' ''mundo'' None 1
        (snd (addMessage 0 ''56911112222'' ''Hola'' None 0 initialBuffers))))) ''56911112222''
     = None
   \<and> 0 \<le> maxWaitTimeMs (bufferConfig initialBuffers)
   \<and> map_of (buffers initialBuffers) ''56911112222'' = None
   \<and> (10000, 5, Combined ''a b c d e f'' 6 None)
       \<in> set (fst (runKey ''56911112222''
            [(0, ''a'', None), (2000, ''b'', None), (4000, ''c'', None), (6000, ''d'', None),
             (8000, ''e'', None), (9900, ''f'', None), (10500, ''g'', None)] initialBuffers))
   \<and> 10000 \<le> fst ([(0, ''a'', None), (2000, ''b'', None), (4000, ''c'', None),
                     (6000, ''d'', None), (8000, ''e'', None), (9900, ''f'', None),
                     (10500::int, ''g'', None::string option)] ! (5 + 1 - 6))
               + maxWaitTimeMs (bufferConfig initialBuffers)
   \<and> map_of (buffers (snd (runKey ''56911112222''
        [(0, ''a'', None), (2000, ''b'', None), (4000, ''c'', None), (6000, ''d'', None),
         (8000, ''e'', None), (9900, ''f'', None), (10500, ''g'', None)] initialBuffers)))
       ''56911112222'' = None"
proof -
  let ?k = "''56911112222''"
  let ?b = "\<lparr>messages = [''Hola''], firstMessageTime = 0, lastContext = None,
             timeout = Some 2500, resolve = Some 0\<rparr>"
  let ?svb = "snd (addMessage 0 ?k ''Hola'' None 0 initialBuffers)"
  let ?arr = "[(0::int, ''a'', None::string option), (2000, ''b'', None), (4000, ''c'', None),
               (6000, ''d'', None), (8000, ''e'', None), (9900, ''f'', None),
               (10500, ''g'', None)]"
  have h4: "map_of (buffers initialBuffers) ?k = None" by (simp add: initialBuffers_def)
  have w: "\<not> min (waitTimeMs (bufferConfig initialBuffers))
                 (maxWaitTimeMs (bufferConfig initialBuffers)) \<le> 0"
    by (simp add: initialBuffers_def)
  have h1: "map_of (buffers ?svb) ?k = Some ?b"
    using addMessage_fresh_wait(2) [OF h4 w, of 0 "''Hola''" None 0]
    by (simp add: initialBuffers_def trim_def isSpace_def)
  have h2: "firstMessageTime ?b + maxWaitTimeMs (bufferConfig ?svb) \<le> 10000"
    by (simp add: addMessage_config initialBuffers_def)
  have h3: "0 \<le> maxWaitTimeMs (bufferConfig initialBuffers)" by (simp add: initialBuffers_def)
  have mem: "(10000, 5, Combined ''a b c d e f'' 6 None)
       \<in> set (fst (runKey ?k ?arr initialBuffers))"
    by (simp add: initialBuffers_def runKey_def fireDue_def fireLast_def addMessage_def
        processBuffer_def Let_def trim_def isSpace_def AList.delete_eq)
  show ?thesis
    using ceiling_forces_flush [where svc = initialBuffers and now = 0 and k = ?k
        and m = "''Hola''" and c = None and p = 0 and b = ?b
        and svb = ?svb and kb = ?k and bb = ?b and nowb = 10000 and mb = "''mundo''"
        and cb = None and pb = 1
        and svr = initialBuffers and kr = ?k and arr = ?arr]
      h1 h2 h3 h4 mem
    by blast
qed

section \<open>Scheduled dispatch engine: properties\<close>

lemma deliveredCount_append: "deliveredCount (a @ b) = deliveredCount a + deliveredCount b"
  by (simp add: deliveredCount_def)

lemma deliveredCount_logs: "deliveredCount (map (Pair s) (filterLogs now ms)) = 0"
proof -
  have "\<forall>e \<in> set (filterLogs now ms). \<not> isDelivered e"
    by (auto simp add: filterLogs_def dueEntry_def Let_def isDelivered_def
        split: option.splits jsdate.splits if_splits)
  then show ?thesis by (simp add: deliveredCount_def filter_empty_conv)
qed

lemma sendLoop_facts:
  "(\<forall>(s, e) \<in> set (fst (sendLoop cfg env len i msgs st)). isProcessing s = isProcessing st)
   \<and> isProcessing (snd (snd (sendLoop cfg env len i msgs st))) = isProcessing st
   \<and> hasProvider (snd (snd (sendLoop cfg env len i msgs st))) = hasProvider st
   \<and> lastResetDate (snd (snd (sendLoop cfg env len i msgs st))) = lastResetDate st
   \<and> dailySentCount (snd (snd (sendLoop cfg env len i msgs st)))
       = dailySentCount st + deliveredCount (fst (sendLoop cfg env len i msgs st))
   \<and> (dailySentCount st \<le> maxDailyMessages cfg \<longrightarrow>
        dailySentCount (snd (snd (sendLoop cfg env len i msgs st))) \<le> maxDailyMessages cfg)"
proof (induction msgs arbitrary: i st)
  case Nil
  then show ?case by (simp add: deliveredCount_def)
next
  case (Cons msg rest)
  show ?case
  proof (cases "dailySentCount st \<ge> maxDailyMessages cfg")
    case True
    then show ?thesis by (simp add: deliveredCount_def isDelivered_def)
  next
    case False
    show ?thesis
    proof (cases "deliver env msg")
      case Delivered
      let ?st' = "st\<lparr>dailySentCount := dailySentCount st + 1\<rparr>"
      from Cons.IH [of "i + 1" ?st'] False Delivered show ?thesis
        by (auto simp add: Let_def split_beta deliveredCount_def isDelivered_def)
    next
      case (Rejected err)
      from Cons.IH [of "i + 1" st] False Rejected show ?thesis
        by (auto simp add: Let_def split_beta deliveredCount_def isDelivered_def)
    next
      case RejectedNullish
      with False show ?thesis
        by (simp add: Let_def deliveredCount_def isDelivered_def)
    qed
  qed
qed

lemma checkDailyReset_facts:
  "(\<forall>(s, e) \<in> set (fst (checkDailyReset today st)). isProcessing s = isProcessing st)
   \<and> isProcessing (snd (checkDailyReset today st)) = isProcessing st
   \<and> hasProvider (snd (checkDailyReset today st)) = hasProvider st
   \<and> lastResetDate (snd (checkDailyReset today st)) = today
   \<and> dailySentCount (snd (checkDailyReset today st))
       = (if today = lastResetDate st then dailySentCount st else 0)
   \<and> deliveredCount (fst (checkDailyReset today st)) = 0"
  by (simp add: checkDailyReset_def Let_def deliveredCount_def isDelivered_def)

lemma cycleBody_skipped:
  "\<not> isWithinAllowedHours cfg (clockHour env) \<Longrightarrow> cycleBody cfg env st = ([], st)"
  by (simp add: cycleBody_def)

lemma cycleBody_facts:
  assumes "isWithinAllowedHours cfg (clockHour env)"
  shows "(\<forall>(s, e) \<in> set (fst (cycleBody cfg env st)). isProcessing s = isProcessing st)
   \<and> isProcessing (snd (cycleBody cfg env st)) = isProcessing st
   \<and> hasProvider (snd (cycleBody cfg env st)) = hasProvider st
   \<and> lastResetDate (snd (cycleBody cfg env st)) = clockDay env
   \<and> dailySentCount (snd (cycleBody cfg env st))
       = (if clockDay env = lastResetDate st then dailySentCount st else 0)
         + deliveredCount (fst (cycleBody cfg env st))
   \<and> (dailySentCount st \<le> maxDailyMessages cfg \<longrightarrow>
        dailySentCount (snd (cycleBody cfg env st)) \<le> maxDailyMessages cfg)"
proof -
  obtain resetLog st1 where r: "checkDailyReset (clockDay env) st = (resetLog, st1)"
    by fastforce
  from checkDailyReset_facts [of "clockDay env" st] r
  have r1: "\<forall>(s, e) \<in> set resetLog. isProcessing s = isProcessing st"
    and r2: "isProcessing st1 = isProcessing st" and r3: "hasProvider st1 = hasProvider st"
    and r4: "lastResetDate st1 = clockDay env"
    and r5: "dailySentCount st1 = (if clockDay env = lastResetDate st then dailySentCount st else 0)"
    and r6: "deliveredCount resetLog = 0"
    by simp_all
  show ?thesis
  proof (cases "dailySentCount st1 \<ge> maxDailyMessages cfg")
    case True
    have "cycleBody cfg env st = (resetLog @ [(st1, LogLimitReached (dailySentCount st1))], st1)"
      using assms True by (simp add: cycleBody_def r)
    then show ?thesis using r1 r2 r3 r4 r5 r6 True
      by (auto simp add: deliveredCount_append deliveredCount_def isDelivered_def)
  next
    case False
    let ?msgs = "getScheduledMessages (sheetRows env)"
    let ?pending = "pendingOf (clockNow env) ?msgs"
    let ?fetched = "resetLog @ [(st1, FetchBacklog)]
                      @ map (Pair st1) (filterLogs (clockNow env) ?msgs)"
    have f1: "\<forall>(s, e) \<in> set ?fetched. isProcessing s = isProcessing st"
      using r1 r2 by auto
    have f0: "deliveredCount [(st1, FetchBacklog)] = 0"
      by (simp add: deliveredCount_def isDelivered_def)
    have f2: "deliveredCount ?fetched = 0"
      unfolding deliveredCount_append deliveredCount_logs r6 f0 by simp
    show ?thesis
    proof (cases "length ?pending = 0")
      case True
      have "cycleBody cfg env st = (?fetched, st1)"
        using assms False True by (simp add: cycleBody_def r Let_def)
      then show ?thesis using f1 f2 r2 r3 r4 r5 False by auto
    next
      case nonempty: False
      obtain tr failed st2
        where l: "sendLoop cfg env (length ?pending) 0 ?pending st1 = (tr, failed, st2)"
        by (metis prod_cases3)
      from sendLoop_facts [of cfg env "length ?pending" 0 ?pending st1] l
      have l1: "\<forall>(s, e) \<in> set tr. isProcessing s = isProcessing st1"
        and l2: "isProcessing st2 = isProcessing st1" and l3: "hasProvider st2 = hasProvider st1"
        and l4: "lastResetDate st2 = lastResetDate st1"
        and l5: "dailySentCount st2 = dailySentCount st1 + deliveredCount tr"
        and l6: "dailySentCount st1 \<le> maxDailyMessages cfg \<longrightarrow>
                   dailySentCount st2 \<le> maxDailyMessages cfg"
        by auto
      have c: "cycleBody cfg env st
          = (?fetched @ [(st1, LogToSend (length ?pending))] @ tr
               @ (if failed then [(st2, LogCycleError)] else []), st2)"
        using assms False nonempty by (simp add: cycleBody_def r Let_def l)
      have d0: "deliveredCount [(st1, LogToSend (length ?pending))] = 0"
        and d1: "deliveredCount (if failed then [(st2, LogCycleError)] else []) = 0"
        by (simp_all add: deliveredCount_def isDelivered_def)
      have d: "deliveredCount (?fetched @ [(st1, LogToSend (length ?pending))] @ tr
               @ (if failed then [(st2, LogCycleError)] else [])) = deliveredCount tr"
        unfolding deliveredCount_append [of ?fetched] deliveredCount_append [of "[(st1, LogToSend (length ?pending))]"]
          deliveredCount_append [of tr] f2 d0 d1 by simp
      have p: "\<forall>(s, e) \<in> set (?fetched @ [(st1, LogToSend (length ?pending))] @ tr
               @ (if failed then [(st2, LogCycleError)] else [])). isProcessing s = isProcessing st"
        using f1 l1 l2 r2 by auto
      from False have "dailySentCount st1 \<le> maxDailyMessages cfg" by simp
      with l6 have le: "dailySentCount st2 \<le> maxDailyMessages cfg" by simp
      show ?thesis unfolding c using d p l2 l3 l4 l5 le r2 r3 r4 r5 by simp
    qed
  qed
qed

lemma process_guarded:
  "isProcessing st \<or> \<not> hasProvider st \<Longrightarrow> processScheduledMessages cfg env st = ([], st)"
  by (auto simp add: processScheduledMessages_def)

lemma process_skipped:
  assumes "\<not> isProcessing st" "\<not> isWithinAllowedHours cfg (clockHour env)"
  shows "processScheduledMessages cfg env st = ([], st)"
proof (cases "hasProvider st")
  case False
  then show ?thesis by (simp add: process_guarded)
next
  case True
  have "st\<lparr>isProcessing := True\<rparr>\<lparr>isProcessing := False\<rparr> = st"
    using assms(1) by (cases st) simp
  then show ?thesis
    using assms True by (simp add: processScheduledMessages_def cycleBody_skipped)
qed

lemma process_facts:
  assumes "\<not> isProcessing st" "hasProvider st" "isWithinAllowedHours cfg (clockHour env)"
  shows "(\<forall>(s, e) \<in> set (fst (processScheduledMessages cfg env st)). isProcessing s)
   \<and> \<not> isProcessing (snd (processScheduledMessages cfg env st))
   \<and> hasProvider (snd (processScheduledMessages cfg env st))
   \<and> lastResetDate (snd (processScheduledMessages cfg env st)) = clockDay env
   \<and> dailySentCount (snd (processScheduledMessages cfg env st))
       = (if clockDay env = lastResetDate st then dailySentCount st else 0)
         + deliveredCount (fst (processScheduledMessages cfg env st))
   \<and> (dailySentCount st \<le> maxDailyMessages cfg \<longrightarrow>
        dailySentCount (snd (processScheduledMessages cfg env st)) \<le> maxDailyMessages cfg)"
proof -
  let ?st1 = "st\<lparr>isProcessing := True\<rparr>"
  obtain tr st2 where c: "cycleBody cfg env ?st1 = (tr, st2)" by fastforce
  have p: "processScheduledMessages cfg env st = (tr, st2\<lparr>isProcessing := False\<rparr>)"
    using assms(1,2) by (simp add: processScheduledMessages_def c)
  from cycleBody_facts [OF assms(3), of ?st1] c
  have "(\<forall>(s, e) \<in> set tr. isProcessing s)
     \<and> hasProvider st2
     \<and> lastResetDate st2 = clockDay env
     \<and> dailySentCount st2
         = (if clockDay env = lastResetDate st then dailySentCount st else 0) + deliveredCount tr
     \<and> (dailySentCount st \<le> maxDailyMessages cfg \<longrightarrow> dailySentCount st2 \<le> maxDailyMessages cfg)"
    using assms(2) by auto
  then show ?thesis unfolding p by auto
qed

lemma process_flag:
  "isProcessing (snd (processScheduledMessages cfg env st)) = isProcessing st"
  by (auto simp add: processScheduledMessages_def Let_def split_beta)

lemma process_held:
  "\<forall>(s, e) \<in> set (fst (processScheduledMessages cfg env st)). isProcessing s"
proof (cases "isProcessing st \<or> \<not> hasProvider st")
  case True
  then show ?thesis by (simp add: process_guarded)
next
  case False
  show ?thesis
  proof (cases "isWithinAllowedHours cfg (clockHour env)")
    case True
    with False process_facts [of st cfg env] show ?thesis by blast
  next
    case w: False
    with False show ?thesis by (simp add: process_skipped)
  qed
qed

lemma process_count:
  assumes "\<not> isProcessing st" "dailySentCount st \<le> maxDailyMessages cfg"
  shows "dailySentCount (snd (processScheduledMessages cfg env st)) \<le> maxDailyMessages cfg"
proof (cases "hasProvider st \<and> isWithinAllowedHours cfg (clockHour env)")
  case True
  with assms process_facts [of st cfg env] show ?thesis by blast
next
  case False
  then have "processScheduledMessages cfg env st = ([], st)"
    using assms(1) by (auto simp add: process_guarded process_skipped)
  then show ?thesis using assms(2) by simp
qed

lemma deliveredOn_Cons:
  "deliveredOn d ((day, tr) # polls)
     = (if day = d then deliveredCount tr else 0) + deliveredOn d polls"
  by (simp add: deliveredOn_def)

lemma deliveredOn_other_days:
  "\<forall>e \<in> set envs. clockDay e \<noteq> d \<Longrightarrow> deliveredOn d (fst (runCycles cfg envs st)) = 0"
proof (induction envs arbitrary: st)
  case Nil
  then show ?case by (simp add: deliveredOn_def)
next
  case (Cons env envs)
  then show ?case by (simp add: split_beta deliveredOn_Cons)
qed

lemma runCycles_cap:
  assumes "\<not> isProcessing st" "dailySentCount st \<le> maxDailyMessages cfg"
    and "sorted (map clockDay envs)" "\<forall>e \<in> set envs. lastResetDate st \<le> clockDay e"
  shows "deliveredOn d (fst (runCycles cfg envs st))
           + (if d = lastResetDate st then dailySentCount st else 0) \<le> maxDailyMessages cfg
     \<and> dailySentCount (snd (runCycles cfg envs st)) \<le> maxDailyMessages cfg
     \<and> \<not> isProcessing (snd (runCycles cfg envs st))"
  using assms
proof (induction envs arbitrary: st)
  case Nil
  then show ?case by (simp add: deliveredOn_def)
next
  case (Cons env envs)
  obtain tr st1 where p: "processScheduledMessages cfg env st = (tr, st1)" by fastforce
  have unf: "runCycles cfg (env # envs) st
      = ((clockDay env, tr) # fst (runCycles cfg envs st1), snd (runCycles cfg envs st1))"
    by (simp add: p split_beta)
  have f1: "\<not> isProcessing st1" using process_flag [of cfg env st] p Cons.prems(1) by simp
  have c1: "dailySentCount st1 \<le> maxDailyMessages cfg"
    using process_count [OF Cons.prems(1) Cons.prems(2), of env] p by simp
  have srt: "sorted (map clockDay envs)" using Cons.prems(3) by simp
  have after: "\<forall>e \<in> set envs. clockDay env \<le> clockDay e" using Cons.prems(3) by simp
  show ?case
  proof (cases "hasProvider st \<and> isWithinAllowedHours cfg (clockHour env)")
    case False
    then have "processScheduledMessages cfg env st = ([], st)"
      using Cons.prems(1) by (auto simp add: process_guarded process_skipped)
    with p have e: "tr = []" "st1 = st" by simp_all
    have l: "\<forall>e \<in> set envs. lastResetDate st \<le> clockDay e" using Cons.prems(4) by simp
    have z: "deliveredCount tr = 0" by (simp add: e deliveredCount_def)
    from Cons.IH [OF Cons.prems(1) Cons.prems(2) srt l] show ?thesis
      unfolding unf e by (auto simp add: deliveredOn_Cons deliveredCount_def)
  next
    case True
    with process_facts [of st cfg env] Cons.prems(1) p
    have l1: "lastResetDate st1 = clockDay env"
      and n1: "dailySentCount st1
         = (if clockDay env = lastResetDate st then dailySentCount st else 0) + deliveredCount tr"
      by auto
    have l: "\<forall>e \<in> set envs. lastResetDate st1 \<le> clockDay e" using after l1 by simp
    note IH = Cons.IH [OF f1 c1 srt l]
    show ?thesis
    proof (cases "d = clockDay env")
      case True
      with IH l1 n1 show ?thesis unfolding unf by (simp add: deliveredOn_Cons)
    next
      case other: False
      show ?thesis
      proof (cases "d = lastResetDate st")
        case True
        from Cons.prems(4) have "lastResetDate st \<le> clockDay env" by simp
        with True other have "d < clockDay env" by simp
        with after have "\<forall>e \<in> set envs. clockDay e \<noteq> d" by auto
        then have z: "deliveredOn d (fst (runCycles cfg envs st1)) = 0"
          by (rule deliveredOn_other_days)
        from IH z other True Cons.prems(2) show ?thesis
          unfolding unf by (simp add: deliveredOn_Cons)
      next
        case False
        with IH other l1 show ?thesis unfolding unf by (simp add: deliveredOn_Cons)
      qed
    qed
  qed
qed

text \<open>
  Claim C1 (the code departs from it).  The row below has the due date
  \<^verbatim>\<open>31/02/2024 99:99\<close> and the status \<^verbatim>\<open>Pendiente\<close>.  \<^verbatim>\<open>parseDateTime\<close> does not
  reject it: the date constructor carries day 31 of February and 99 hours 99 minutes
  over, which gives 6 March 2024, 04:39.  A poll on 7 March 2024 at noon therefore
  takes the entry as due, logs nothing about an invalid hour, calls the provider with
  the message and sets the row's status to \<^verbatim>\<open>Enviado\<close>.
\<close>

theorem unparsable_due_date_is_sent:
  "parseDateTime ''31/02/2024 99:99'' = Some (TimeValue 1709699940000)
   \<and> newDate (Some 2024) (Some 2) (Some 6) (Some 4) 39 0 = TimeValue 1709699940000
   \<and> map snd (fst (processScheduledMessages defaultSchedConfig
         \<lparr>clockHour = 12, clockDay = 19789,
          sheetRows = Some [[''+56 9 1111 2222'', ''Hola'', '''', ''31/02/2024 99:99'',
                             ''Pendiente'']],
          clockNow = 1709812800000, deliver = (\<lambda>m. Delivered), randomDraw = (\<lambda>i. 0)\<rparr>
         (startScheduler (initialScheduler 19789))))
     = [FetchBacklog, LogToSend 1, LogSending ''56911112222'',
        SendMessage ''56911112222'' ''Hola'' None Delivered,
        UpdateStatus 2 ''Enviado'', LogSent ''56911112222'' 1]"
  by code_simp

lemma cycleBody_new_day_fetches:
  assumes "isWithinAllowedHours cfg (clockHour env)" "clockDay env \<noteq> lastResetDate st"
    and "0 < maxDailyMessages cfg"
  shows "FetchBacklog \<in> snd ` set (fst (cycleBody cfg env st))"
  using assms
  by (simp add: cycleBody_def checkDailyReset_def Let_def split_beta image_Un)

lemma process_new_day_fetches:
  assumes "\<not> isProcessing st" "hasProvider st" "isWithinAllowedHours cfg (clockHour env)"
    and "clockDay env \<noteq> lastResetDate st" "0 < maxDailyMessages cfg"
  shows "FetchBacklog \<in> snd ` set (fst (processScheduledMessages cfg env st))"
proof -
  have "lastResetDate (st\<lparr>isProcessing := True\<rparr>) = lastResetDate st" by simp
  with assms(4) have n: "clockDay env \<noteq> lastResetDate (st\<lparr>isProcessing := True\<rparr>)" by simp
  from cycleBody_new_day_fetches [OF assms(3) n assms(5)] assms(1,2)
  show ?thesis by (simp add: processScheduledMessages_def Let_def split_beta)
qed

text \<open>
  Claim C2.  Polls run one after the other; each send is counted on the day the
  poll's clock showed.  From a state that is not in a poll and whose counter is within
  the cap, with days that do not go backwards and start no earlier than the stored
  date: for every day \<open>d\<close>, the deliveries of the polls of day \<open>d\<close>, together with what
  the counter already holds when \<open>d\<close> is the stored date, never exceed
  \<open>maxDailyMessages\<close>, and the counter stays within the cap.  \<^verbatim>\<open>checkDailyReset\<close> on
  a different date sets the counter to 0 and stores the date, and called again with
  that date it does nothing, so a date change resets once; on the stored date it does
  nothing.  In a poll that gets past the guard and the hour check the reset comes
  before the cap check: afterwards the stored date is the poll's day and the counter
  is the poll's own deliveries added to the old counter on the same day and to 0 on a
  new day; and on a new day, with a positive cap, the poll goes on to read the
  backlog whatever the old counter was.
\<close>

theorem daily_cap_and_reset:
  "(\<not> isProcessing st \<and> dailySentCount st \<le> maxDailyMessages cfg
      \<and> sorted (map clockDay envs) \<and> (\<forall>e \<in> set envs. lastResetDate st \<le> clockDay e)
    \<longrightarrow> deliveredOn d (fst (runCycles cfg envs st))
          + (if d = lastResetDate st then dailySentCount st else 0) \<le> maxDailyMessages cfg
        \<and> dailySentCount (snd (runCycles cfg envs st)) \<le> maxDailyMessages cfg)
   \<and> (today \<noteq> lastResetDate sa
    \<longrightarrow> checkDailyReset today sa
          = ([(sa\<lparr>dailySentCount := 0, lastResetDate := today\<rparr>, LogDailyReset)],
             sa\<lparr>dailySentCount := 0, lastResetDate := today\<rparr>)
        \<and> checkDailyReset today (snd (checkDailyReset today sa))
          = ([], snd (checkDailyReset today sa)))
   \<and> (todayb = lastResetDate sb \<longrightarrow> checkDailyReset todayb sb = ([], sb))
   \<and> (\<not> isProcessing sc \<and> hasProvider sc \<and> isWithinAllowedHours cfgc (clockHour envc)
    \<longrightarrow> lastResetDate (snd (processScheduledMessages cfgc envc sc)) = clockDay envc
        \<and> dailySentCount (snd (processScheduledMessages cfgc envc sc))
            = (if clockDay envc = lastResetDate sc then dailySentCount sc else 0)
              + deliveredCount (fst (processScheduledMessages cfgc envc sc))
        \<and> (clockDay envc \<noteq> lastResetDate sc \<and> 0 < maxDailyMessages cfgc
            \<longrightarrow> FetchBacklog \<in> snd ` set (fst (processScheduledMessages cfgc envc sc))))"
proof (intro conjI impI)
  assume a: "\<not> isProcessing st \<and> dailySentCount st \<le> maxDailyMessages cfg
      \<and> sorted (map clockDay envs) \<and> (\<forall>e \<in> set envs. lastResetDate st \<le> clockDay e)"
  then have 1: "\<not> isProcessing st" and 2: "dailySentCount st \<le> maxDailyMessages cfg"
    and 3: "sorted (map clockDay envs)" and 4: "\<forall>e \<in> set envs. lastResetDate st \<le> clockDay e"
    by blast+
  from runCycles_cap [OF 1 2 3 4, of d]
  show "deliveredOn d (fst (runCycles cfg envs st))
          + (if d = lastResetDate st then dailySentCount st else 0) \<le> maxDailyMessages cfg"
    and "dailySentCount (snd (runCycles cfg envs st)) \<le> maxDailyMessages cfg"
    by blast+
next
  assume "today \<noteq> lastResetDate sa"
  then show "checkDailyReset today sa
          = ([(sa\<lparr>dailySentCount := 0, lastResetDate := today\<rparr>, LogDailyReset)],
             sa\<lparr>dailySentCount := 0, lastResetDate := today\<rparr>)"
    and "checkDailyReset today (snd (checkDailyReset today sa))
          = ([], snd (checkDailyReset today sa))"
    by (simp_all add: checkDailyReset_def Let_def)
next
  assume "todayb = lastResetDate sb"
  then show "checkDailyReset todayb sb = ([], sb)" by (simp add: checkDailyReset_def)
next
  assume a: "\<not> isProcessing sc \<and> hasProvider sc \<and> isWithinAllowedHours cfgc (clockHour envc)"
  then have 1: "\<not> isProcessing sc" and 2: "hasProvider sc"
    and 3: "isWithinAllowedHours cfgc (clockHour envc)" by blast+
  from process_facts [OF 1 2 3]
  show "lastResetDate (snd (processScheduledMessages cfgc envc sc)) = clockDay envc"
    and "dailySentCount (snd (processScheduledMessages cfgc envc sc))
            = (if clockDay envc = lastResetDate sc then dailySentCount sc else 0)
              + deliveredCount (fst (processScheduledMessages cfgc envc sc))"
    by blast+
  assume "clockDay envc \<noteq> lastResetDate sc \<and> 0 < maxDailyMessages cfgc"
  then have 4: "clockDay envc \<noteq> lastResetDate sc" and 5: "0 < maxDailyMessages cfgc" by blast+
  show "FetchBacklog \<in> snd ` set (fst (processScheduledMessages cfgc envc sc))"
    by (rule process_new_day_fetches [OF 1 2 3 4 5])
qed

theorem daily_cap_and_reset_witness:
  "\<not> isProcessing (startScheduler (initialScheduler 19789))
   \<and> dailySentCount (startScheduler (initialScheduler 19789))
       \<le> maxDailyMessages (defaultSchedConfig\<lparr>maxDailyMessages := 1\<rparr>)
   \<and> sorted (map clockDay
         [examplePoll 19789 ''01/03/2024 10:00'' Delivered,
          examplePoll 19789 ''01/03/2024 10:00'' Delivered,
          examplePoll 19790 ''01/03/2024 10:00'' Delivered])
   \<and> deliveredOn 19789 (fst (runCycles (defaultSchedConfig\<lparr>maxDailyMessages := 1\<rparr>)
         [examplePoll 19789 ''01/03/2024 10:00'' Delivered,
          examplePoll 19789 ''01/03/2024 10:00'' Delivered,
          examplePoll 19790 ''01/03/2024 10:00'' Delivered]
         (startScheduler (initialScheduler 19789))))
       + (if 19789 = lastResetDate (startScheduler (initialScheduler 19789))
          then dailySentCount (startScheduler (initialScheduler 19789)) else 0)
       \<le> maxDailyMessages (defaultSchedConfig\<lparr>maxDailyMessages := 1\<rparr>)
   \<and> deliveredOn 19789 (fst (runCycles (defaultSchedConfig\<lparr>maxDailyMessages := 1\<rparr>)
         [examplePoll 19789 ''01/03/2024 10:00'' Delivered,
          examplePoll 19789 ''01/03/2024 10:00'' Delivered,
          examplePoll 19790 ''01/03/2024 10:00'' Delivered]
         (startScheduler (initialScheduler 19789)))) = 1
   \<and> deliveredOn 19790 (fst (runCycles (defaultSchedConfig\<lparr>maxDailyMessages := 1\<rparr>)
         [examplePoll 19789 ''01/03/2024 10:00'' Delivered,
          examplePoll 19789 ''01/03/2024 10:00'' Delivered,
          examplePoll 19790 ''01/03/2024 10:00'' Delivered]
         (startScheduler (initialScheduler 19789)))) = 1
   \<and> 19790 \<noteq> lastResetDate (startScheduler (initialScheduler 19789))
   \<and> checkDailyReset 19790 (snd (checkDailyReset 19790 (startScheduler (initialScheduler 19789))))
       = ([], snd (checkDailyReset 19790 (startScheduler (initialScheduler 19789))))
   \<and> checkDailyReset 19789 (startScheduler (initialScheduler 19789))
       = ([], startScheduler (initialScheduler 19789))
   \<and> hasProvider ((startScheduler (initialScheduler 19789))\<lparr>dailySentCount := 1\<rparr>)
   \<and> isWithinAllowedHours (defaultSchedConfig\<lparr>maxDailyMessages := 1\<rparr>)
         (clockHour (examplePoll 19790 ''01/03/2024 10:00'' Delivered))
   \<and> lastResetDate (snd (processScheduledMessages (defaultSchedConfig\<lparr>maxDailyMessages := 1\<rparr>)
         (examplePoll 19790 ''01/03/2024 10:00'' Delivered)
         ((startScheduler (initialScheduler 19789))\<lparr>dailySentCount := 1\<rparr>))) = 19790
   \<and> FetchBacklog \<in> snd ` set (fst (processScheduledMessages
         (defaultSchedConfig\<lparr>maxDailyMessages := 1\<rparr>)
         (examplePoll 19790 ''01/03/2024 10:00'' Delivered)
         ((startScheduler (initialScheduler 19789))\<lparr>dailySentCount := 1\<rparr>)))"
proof -
  let ?st = "startScheduler (initialScheduler 19789)"
  let ?cfg = "defaultSchedConfig\<lparr>maxDailyMessages := 1\<rparr>"
  let ?envs = "[examplePoll 19789 ''01/03/2024 10:00'' Delivered,
                examplePoll 19789 ''01/03/2024 10:00'' Delivered,
                examplePoll 19790 ''01/03/2024 10:00'' Delivered]"
  let ?sc = "?st\<lparr>dailySentCount := 1\<rparr>"
  let ?envc = "examplePoll 19790 ''01/03/2024 10:00'' Delivered"
  have h1: "\<not> isProcessing ?st" by (simp add: startScheduler_def initialScheduler_def)
  have h2: "dailySentCount ?st \<le> maxDailyMessages ?cfg"
    by (simp add: startScheduler_def initialScheduler_def)
  have h3: "sorted (map clockDay ?envs)" by (simp add: examplePoll_def)
  have h4: "\<forall>e \<in> set ?envs. lastResetDate ?st \<le> clockDay e"
    by (simp add: examplePoll_def startScheduler_def initialScheduler_def)
  have h5: "19790 \<noteq> lastResetDate ?st" by (simp add: startScheduler_def initialScheduler_def)
  have h6: "19789 = lastResetDate ?st" by (simp add: startScheduler_def initialScheduler_def)
  have h7: "\<not> isProcessing ?sc" by (simp add: startScheduler_def initialScheduler_def)
  have h8: "hasProvider ?sc" by (simp add: startScheduler_def initialScheduler_def)
  have h9: "isWithinAllowedHours ?cfg (clockHour ?envc)"
    by (simp add: isWithinAllowedHours_def examplePoll_def defaultSchedConfig_def)
  have h10: "clockDay ?envc \<noteq> lastResetDate ?sc \<and> 0 < maxDailyMessages ?cfg"
    by (simp add: examplePoll_def startScheduler_def initialScheduler_def)
  have d: "clockDay ?envc = 19790" by (simp add: examplePoll_def)
  have e1: "deliveredOn 19789 (fst (runCycles ?cfg ?envs ?st)) = 1" by code_simp
  have e2: "deliveredOn 19790 (fst (runCycles ?cfg ?envs ?st)) = 1" by code_simp
  note T = daily_cap_and_reset [where st = ?st and cfg = ?cfg and envs = ?envs and d = 19789
      and today = 19790 and sa = ?st and todayb = 19789 and sb = ?st
      and sc = ?sc and cfgc = ?cfg and envc = ?envc]
  from T h1 h2 h3 h4
  have c1: "deliveredOn 19789 (fst (runCycles ?cfg ?envs ?st))
       + (if 19789 = lastResetDate ?st then dailySentCount ?st else 0) \<le> maxDailyMessages ?cfg"
    by blast
  from T h5 have c2: "checkDailyReset 19790 (snd (checkDailyReset 19790 ?st))
       = ([], snd (checkDailyReset 19790 ?st))" by blast
  from T h6 have c3: "checkDailyReset 19789 ?st = ([], ?st)" by blast
  from T h7 h8 h9 have c4: "lastResetDate (snd (processScheduledMessages ?cfg ?envc ?sc))
       = clockDay ?envc" by blast
  from T h7 h8 h9 h10
  have c5: "FetchBacklog \<in> snd ` set (fst (processScheduledMessages ?cfg ?envc ?sc))" by blast
  from h1 h2 h3 c1 e1 e2 h5 c2 c3 h8 h9 c4 c5 d show ?thesis by simp
qed

text \<open>
  Claim C5.  A poll that starts while the flag is held does nothing: no effect, the
  state unchanged.  Every effect of a poll, and so every point at which the poll
  waits and another poll can start, happens with the flag held, and a poll started
  in any of these states does nothing.  At the end of a poll the flag is what it was
  at the start: a poll that took the flag has released it, on every path, the error
  exit included, so the next poll can run.
\<close>

theorem inflight_guard:
  "(isProcessing st \<longrightarrow> processScheduledMessages cfg env st = ([], st))
   \<and> (\<forall>(s, e) \<in> set (fst (processScheduledMessages cfg enva sta)).
         isProcessing s \<and> processScheduledMessages cfg envb s = ([], s))
   \<and> isProcessing (snd (processScheduledMessages cfg enva sta)) = isProcessing sta
   \<and> (\<not> isProcessing sta \<longrightarrow> \<not> isProcessing (snd (processScheduledMessages cfg enva sta)))"
proof (intro conjI impI)
  assume "isProcessing st"
  then show "processScheduledMessages cfg env st = ([], st)" by (simp add: process_guarded)
next
  show "\<forall>(s, e) \<in> set (fst (processScheduledMessages cfg enva sta)).
         isProcessing s \<and> processScheduledMessages cfg envb s = ([], s)"
    using process_held [of cfg enva sta] by (auto simp add: process_guarded)
next
  show "isProcessing (snd (processScheduledMessages cfg enva sta)) = isProcessing sta"
    by (rule process_flag)
next
  assume "\<not> isProcessing sta"
  then show "\<not> isProcessing (snd (processScheduledMessages cfg enva sta))"
    by (simp add: process_flag)
qed

theorem inflight_guard_witness:
  "isProcessing ((startScheduler (initialScheduler 19789))\<lparr>isProcessing := True\<rparr>)
   \<and> processScheduledMessages defaultSchedConfig
         (examplePoll 19789 ''01/03/2024 10:00'' Delivered)
         ((startScheduler (initialScheduler 19789))\<lparr>isProcessing := True\<rparr>)
       = ([], (startScheduler (initialScheduler 19789))\<lparr>isProcessing := True\<rparr>)
   \<and> map snd (fst (processScheduledMessages defaultSchedConfig
         (examplePoll 19789 ''01/03/2024 10:00'' RejectedNullish)
         (startScheduler (initialScheduler 19789))))
       = [FetchBacklog, LogToSend 2, LogSending ''56911112222'',
          SendMessage ''56911112222'' ''Hola'' None RejectedNullish, LogCycleError]
   \<and> list_all (\<lambda>(s, e). isProcessing s
          \<and> processScheduledMessages defaultSchedConfig
               (examplePoll 19789 ''01/03/2024 10:00'' Delivered) s = ([], s))
        (fst (processScheduledMessages defaultSchedConfig
          (examplePoll 19789 ''01/03/2024 10:00'' RejectedNullish)
          (startScheduler (initialScheduler 19789))))
   \<and> \<not> isProcessing (startScheduler (initialScheduler 19789))
   \<and> \<not> isProcessing (snd (processScheduledMessages defaultSchedConfig
          (examplePoll 19789 ''01/03/2024 10:00'' RejectedNullish)
          (startScheduler (initialScheduler 19789))))
   \<and> deliveredCount (fst (processScheduledMessages defaultSchedConfig
          (examplePoll 19789 ''01/03/2024 10:00'' Delivered)
          (snd (processScheduledMessages defaultSchedConfig
                 (examplePoll 19789 ''01/03/2024 10:00'' RejectedNullish)
                 (startScheduler (initialScheduler 19789)))))) = 2"
proof -
  let ?st = "startScheduler (initialScheduler 19789)"
  let ?held = "?st\<lparr>isProcessing := True\<rparr>"
  let ?ok = "examplePoll 19789 ''01/03/2024 10:00'' Delivered"
  let ?err = "examplePoll 19789 ''01/03/2024 10:00'' RejectedNullish"
  have h1: "isProcessing ?held" by simp
  have h2: "\<not> isProcessing ?st" by (simp add: startScheduler_def initialScheduler_def)
  have e1: "map snd (fst (processScheduledMessages defaultSchedConfig ?err ?st))
       = [FetchBacklog, LogToSend 2, LogSending ''56911112222'',
          SendMessage ''56911112222'' ''Hola'' None RejectedNullish, LogCycleError]"
    by code_simp
  have e2: "deliveredCount (fst (processScheduledMessages defaultSchedConfig ?ok
          (snd (processScheduledMessages defaultSchedConfig ?err ?st)))) = 2"
    by code_simp
  note T = inflight_guard [where st = ?held and cfg = defaultSchedConfig and env = ?ok
      and enva = ?err and sta = ?st and envb = ?ok]
  from T h1 have c1: "processScheduledMessages defaultSchedConfig ?ok ?held = ([], ?held)"
    by blast
  from T have "\<forall>(s, e) \<in> set (fst (processScheduledMessages defaultSchedConfig ?err ?st)).
         isProcessing s \<and> processScheduledMessages defaultSchedConfig ?ok s = ([], s)"
    by blast
  then have c2: "list_all (\<lambda>(s, e). isProcessing s
          \<and> processScheduledMessages defaultSchedConfig ?ok s = ([], s))
        (fst (processScheduledMessages defaultSchedConfig ?err ?st))"
    by (simp only: list_all_iff)
  from T h2 have c3: "\<not> isProcessing (snd (processScheduledMessages defaultSchedConfig ?err ?st))"
    by blast
  from h1 c1 e1 c2 h2 c3 e2 show ?thesis by blast
qed

end
